theory Spec2Isabelle
  imports Main
begin

section \<open>JavaScript values\<close>

text \<open>
  The engine (\<open>src/backend_express/src/chess/engine.js\<close>) works on strings, small
  integers and arrays. Strings are \<open>string\<close> (ASCII texts: every position text and move
  token the server produces is ASCII). A value that may be \<open>undefined\<close> or \<open>null\<close> is an
  \<open>option\<close>. An uncaught JavaScript exception is the left summand of the result.
\<close>

datatype jsError = TypeError

definition andThen :: "jsError + 'a \<Rightarrow> ('a \<Rightarrow> jsError + 'b) \<Rightarrow> jsError + 'b" where
  "andThen r f = (case r of Inl e \<Rightarrow> Inl e | Inr v \<Rightarrow> f v)"

text \<open>
  Counters are JavaScript numbers. \<open>Num n\<close> is the integer \<open>n\<close>, \<open>NaN\<close> is not-a-number.
  Integers are exact in a double up to \<open>2 ^ 53 = 9007199254740992\<close>; adding one to
  \<open>2 ^ 53\<close> gives \<open>2 ^ 53\<close> again, which \<open>jsInc\<close> writes out.
\<close>

datatype jsnum = Num int | NaN

definition jsInc :: "jsnum \<Rightarrow> jsnum" where
  "jsInc v = (case v of NaN \<Rightarrow> NaN
              | Num n \<Rightarrow> if n < 9007199254740992 then Num (n + 1) else Num n)"

definition isDigit :: "char \<Rightarrow> bool" where
  "isDigit c = (48 \<le> (of_char c :: int) \<and> (of_char c :: int) \<le> 57)"

definition digitVal :: "char \<Rightarrow> int" where
  "digitVal c = of_char c - 48"

definition digitChar :: "int \<Rightarrow> char" where
  "digitChar d = char_of (48 + d)"

text \<open>\<open>String(n)\<close> for an integer \<open>0 \<le> n < 10 ^ 21\<close>: its decimal digits.\<close>

function showDec :: "int \<Rightarrow> string" where
  "showDec n = (if n < 10 then [digitChar n] else showDec (n div 10) @ [digitChar (n mod 10)])"
  by pat_completeness auto
termination
  by (relation "measure nat") auto

declare showDec.simps [simp del]

definition showNum :: "jsnum \<Rightarrow> string" where
  "showNum v = (case v of NaN \<Rightarrow> ''NaN''
                | Num n \<Rightarrow> if n < 0 then CHR ''-'' # showDec (- n) else showDec n)"

definition readDec :: "string \<Rightarrow> int" where
  "readDec s = foldl (\<lambda>a c. 10 * a + digitVal c) 0 s"

text \<open>
  \<open>Number(v)\<close>: \<open>undefined\<close> is \<open>NaN\<close>, the empty string is \<open>0\<close>, a string of decimal
  digits is its value (exact up to \<open>2 ^ 53\<close>). Signs, fractions, exponents, hexadecimal
  prefixes and surrounding white space are not modelled: such a string is read as \<open>NaN\<close>
  here, and no statement below depends on the value of such a field.
\<close>

definition jsNumber :: "string option \<Rightarrow> jsnum" where
  "jsNumber v = (case v of None \<Rightarrow> NaN
     | Some s \<Rightarrow> if list_all isDigit s then Num (readDec s) else NaN)"

text \<open>\<open>s.split(c)\<close> and \<open>xs.join(c)\<close> for a one-character separator.\<close>

fun splitOn :: "char \<Rightarrow> string \<Rightarrow> string list" where
  "splitOn c [] = [[]]"
| "splitOn c (d # s) =
     (if d = c then [] # splitOn c s
      else (case splitOn c s of [] \<Rightarrow> [[d]] | r # rs \<Rightarrow> (d # r) # rs))"

fun joinWith :: "char \<Rightarrow> string list \<Rightarrow> string" where
  "joinWith c [] = []"
| "joinWith c [x] = x"
| "joinWith c (x # y # ys) = x @ c # joinWith c (y # ys)"

text \<open>\<open>xs[i]\<close> for an integer \<open>i\<close>: \<open>undefined\<close> outside the array.\<close>

fun nthOpt :: "'a list \<Rightarrow> int \<Rightarrow> 'a option" where
  "nthOpt [] i = None"
| "nthOpt (x # xs) i = (if i = 0 then Some x else nthOpt xs (i - 1))"

text \<open>\<open>xs[i] = v\<close> for \<open>0 \<le> i\<close>: an assignment beyond the end extends the array, and
  the gap reads as \<open>undefined\<close>.\<close>

fun setAt :: "'a option list \<Rightarrow> int \<Rightarrow> 'a option \<Rightarrow> 'a option list" where
  "setAt [] i v = replicate (nat i) None @ [v]"
| "setAt (x # xs) i v = (if i = 0 then v # xs else x # setAt xs (i - 1) v)"

text \<open>A negative index names a property, not an element: the elements stay as they
  are.\<close>

definition jsSet :: "'a option list \<Rightarrow> int \<Rightarrow> 'a option \<Rightarrow> 'a option list" where
  "jsSet xs i v = (if i < 0 then xs else setAt xs i v)"

text \<open>\<open>xs[i] = v\<close> for an element that exists.\<close>

fun replaceAt :: "'a list \<Rightarrow> int \<Rightarrow> 'a \<Rightarrow> 'a list" where
  "replaceAt [] i v = []"
| "replaceAt (x # xs) i v = (if i = 0 then v # xs else x # replaceAt xs (i - 1) v)"

text \<open>\<open>c.toUpperCase()\<close> and \<open>c.toLowerCase()\<close> on an ASCII character.\<close>

definition toUpperCase :: "char \<Rightarrow> char" where
  "toUpperCase c = (if 97 \<le> (of_char c :: int) \<and> (of_char c :: int) \<le> 122
                    then char_of ((of_char c :: int) - 32) else c)"

definition toLowerCase :: "char \<Rightarrow> char" where
  "toLowerCase c = (if 65 \<le> (of_char c :: int) \<and> (of_char c :: int) \<le> 90
                    then char_of ((of_char c :: int) + 32) else c)"

section \<open>Positions\<close>

text \<open>
  A square of the board holds a one-character piece or \<open>null\<close>. The board is an array
  of eight rows (\<open>Array.from({ length: 8 }, ...)\<close> in \<open>parseFen\<close>; no function adds or
  removes a row), indexed \<open>board[y][x]\<close>, and every read and assignment of the code
  names one of these rows. \<open>rd\<close> is a read: a column that does not exist reads as
  \<open>undefined\<close>, which the code treats like \<open>null\<close> (both are falsy and equal to no
  piece). \<open>wr\<close> is an assignment \<open>board[y][x] = v\<close>.
\<close>

type_synonym piece = "char option"
type_synonym board = "piece list list"
type_synonym sq = "int \<times> int"

definition rd :: "board \<Rightarrow> int \<Rightarrow> int \<Rightarrow> piece" where
  "rd b yy xx = (case nthOpt b yy of None \<Rightarrow> None
                 | Some row \<Rightarrow> (case nthOpt row xx of None \<Rightarrow> None | Some p \<Rightarrow> p))"

definition wr :: "board \<Rightarrow> int \<Rightarrow> int \<Rightarrow> piece \<Rightarrow> board" where
  "wr b yy xx v = (case nthOpt b yy of None \<Rightarrow> b
                   | Some row \<Rightarrow> replaceAt b yy (jsSet row xx v))"

record state =
  board :: board
  activeColor :: "string option"
  castling :: "string option"
  enPassant :: "string option"
  halfmove :: jsnum
  fullmove :: jsnum

definition FILES :: "char list" where
  "FILES = ''abcdefgh''"

definition RANKS :: "char list" where
  "RANKS = ''12345678''"

text \<open>\<open>xs.indexOf(c)\<close>, with \<open>c\<close> possibly \<open>undefined\<close>: \<open>-1\<close> when absent.\<close>

fun indexOf :: "char list \<Rightarrow> char option \<Rightarrow> int" where
  "indexOf [] c = -1"
| "indexOf (d # ds) c = (if c = Some d then 0 else (let i = indexOf ds c in if i < 0 then -1 else i + 1))"

definition sqToIdx :: "string \<Rightarrow> sq" where
  "sqToIdx s = (indexOf FILES (nthOpt s 0), indexOf RANKS (nthOpt s 1))"

text \<open>A template string prints \<open>undefined\<close> for an index outside the table.\<close>

definition showChar :: "char option \<Rightarrow> string" where
  "showChar c = (case c of None \<Rightarrow> ''undefined'' | Some d \<Rightarrow> [d])"

definition idxToSq :: "int \<Rightarrow> int \<Rightarrow> string" where
  "idxToSq xx yy = showChar (nthOpt FILES xx) @ showChar (nthOpt RANKS yy)"

definition isUpper :: "char \<Rightarrow> bool" where
  "isUpper c = (c = toUpperCase c)"

subsection \<open>parseFen\<close>

fun placeRow :: "string \<Rightarrow> int \<Rightarrow> int \<Rightarrow> board \<Rightarrow> board" where
  "placeRow [] r file b = b"
| "placeRow (ch # cs) r file b =
     (if isDigit ch then placeRow cs r (file + digitVal ch) b
      else placeRow cs r (file + 1) (wr b (7 - r) file (Some ch)))"

text \<open>The loop over \<open>r\<close>: iterating over a missing rank (\<open>rows[r]\<close> undefined) throws.\<close>

fun parseRanks :: "int list \<Rightarrow> string list \<Rightarrow> board \<Rightarrow> jsError + board" where
  "parseRanks [] rows b = Inr b"
| "parseRanks (r # rs) rows b =
     (case nthOpt rows r of None \<Rightarrow> Inl TypeError
      | Some row \<Rightarrow> parseRanks rs rows (placeRow row r 0 b))"

definition parseFen :: "string \<Rightarrow> jsError + state" where
  "parseFen fen =
     (let fields = splitOn CHR '' '' fen in
      case nthOpt fields 0 of None \<Rightarrow> Inl TypeError
      | Some placement \<Rightarrow>
          andThen (parseRanks [0..7] (splitOn CHR ''/'' placement) (replicate 8 (replicate 8 None)))
            (\<lambda>b. Inr \<lparr> board = b,
                       activeColor = nthOpt fields 1,
                       castling = (if nthOpt fields 2 = Some ''-'' then Some '''' else nthOpt fields 2),
                       enPassant = nthOpt fields 3,
                       halfmove = jsNumber (nthOpt fields 4),
                       fullmove = jsNumber (nthOpt fields 5) \<rparr>))"

subsection \<open>toFen\<close>

fun fenRowLoop :: "int list \<Rightarrow> board \<Rightarrow> int \<Rightarrow> string \<Rightarrow> int \<Rightarrow> string \<times> int" where
  "fenRowLoop [] b r row run = (row, run)"
| "fenRowLoop (f # fs) b r row run =
     (case rd b r f of
        None \<Rightarrow> fenRowLoop fs b r row (run + 1)
      | Some p \<Rightarrow> fenRowLoop fs b r ((if run \<noteq> 0 then row @ showDec run else row) @ [p]) 0)"

definition fenRow :: "board \<Rightarrow> int \<Rightarrow> string" where
  "fenRow b r = (case fenRowLoop [0..7] b r [] 0 of
                   (row, run) \<Rightarrow> if run \<noteq> 0 then row @ showDec run else row)"

text \<open>\<open>${v}\<close> prints \<open>undefined\<close> as such; \<open>v || '-'\<close> replaces \<open>undefined\<close> and the
  empty string.\<close>

definition showStr :: "string option \<Rightarrow> string" where
  "showStr v = (case v of None \<Rightarrow> ''undefined'' | Some s \<Rightarrow> s)"

definition orDash :: "string option \<Rightarrow> string" where
  "orDash v = (case v of None \<Rightarrow> ''-'' | Some s \<Rightarrow> if s = [] then ''-'' else s)"

definition toFen :: "state \<Rightarrow> string" where
  "toFen s = joinWith CHR ''/'' (map (fenRow (board s)) (rev [0..7]))
             @ '' '' @ showStr (activeColor s)
             @ '' '' @ orDash (castling s)
             @ '' '' @ orDash (enPassant s)
             @ '' '' @ showNum (halfmove s)
             @ '' '' @ showNum (fullmove s)"

section \<open>Attacks and check\<close>

definition pieceColor :: "piece \<Rightarrow> string option" where
  "pieceColor p = (case p of None \<Rightarrow> None | Some c \<Rightarrow> Some (if isUpper c then ''w'' else ''b''))"

definition allSquares :: "sq list" where
  "allSquares = concat (map (\<lambda>yy. map (\<lambda>xx. (xx, yy)) [0..7]) [0..7])"

text \<open>The two nested loops of \<open>findKing\<close> visit \<open>allSquares\<close> in order and return at the
  first square that holds the king.\<close>

definition findKing :: "board \<Rightarrow> string option \<Rightarrow> sq option" where
  "findKing b color =
     (let target = (if color = Some ''w'' then CHR ''K'' else CHR ''k'')
      in find (\<lambda>(xx, yy). rd b yy xx = Some target) allSquares)"

definition onBoard :: "int \<Rightarrow> int \<Rightarrow> bool" where
  "onBoard xx yy = (0 \<le> xx \<and> xx < 8 \<and> 0 \<le> yy \<and> yy < 8)"

definition jumps :: "(int \<times> int) list" where
  "jumps = [(1, 2), (2, 1), (-1, 2), (-2, 1), (1, -2), (2, -1), (-1, -2), (-2, -1)]"

text \<open>The pairs \<open>(dx, dy)\<close> of the double loop over \<open>[-1, 0, 1]\<close> that skips \<open>(0, 0)\<close>.\<close>

definition kingSteps :: "(int \<times> int) list" where
  "kingSteps = filter (\<lambda>(dx, dy). \<not> (dx = 0 \<and> dy = 0))
                 (concat (map (\<lambda>dx. map (\<lambda>dy. (dx, dy)) [-1, 0, 1]) [-1, 0, 1]))"

definition diagonals :: "(int \<times> int) list" where
  "diagonals = [(1, 1), (1, -1), (-1, 1), (-1, -1)]"

definition orthogonals :: "(int \<times> int) list" where
  "orthogonals = [(1, 0), (-1, 0), (0, 1), (0, -1)]"

text \<open>
  One \<open>while (onBoard(cx, cy))\<close> loop of \<open>isSquareAttacked\<close>: it walks from \<open>(cx, cy)\<close> in
  direction \<open>(dx, dy)\<close> to the first piece and answers whether that piece is one of the
  two sliders of \<open>byColor\<close>. Every direction of the source's tables is non-zero; the
  test \<open>dx \<noteq> 0 \<or> dy \<noteq> 0\<close> states it, so that the recursion is total.
\<close>

function rayHits :: "board \<Rightarrow> int \<Rightarrow> int \<Rightarrow> int \<Rightarrow> int \<Rightarrow> string \<Rightarrow> char \<Rightarrow> char \<Rightarrow> bool" where
  "rayHits b cx cy dx dy byColor p1 p2 =
     (if onBoard cx cy \<and> (dx \<noteq> 0 \<or> dy \<noteq> 0) then
        (case rd b cy cx of
           Some p \<Rightarrow> pieceColor (Some p) = Some byColor \<and> (p = p1 \<or> p = p2)
         | None \<Rightarrow> rayHits b (cx + dx) (cy + dy) dx dy byColor p1 p2)
      else False)"
  by pat_completeness auto
termination
  by (relation "measure (\<lambda>(b, cx, cy, dx, dy, r).
        if dx > 0 then nat (8 - cx) else if dx < 0 then nat (cx + 1)
        else if dy > 0 then nat (8 - cy) else nat (cy + 1))")
     (auto simp: onBoard_def)

declare rayHits.simps [simp del]

definition isSquareAttacked :: "state \<Rightarrow> sq \<Rightarrow> string \<Rightarrow> bool" where
  "isSquareAttacked s q byColor =
     (case q of (xx, yy) \<Rightarrow>
      let b = board s;
          w = (byColor = ''w'');
          pawn = (if w then CHR ''P'' else CHR ''p'');
          pawnDir = (if w then 1 else -1);
          knight = (if w then CHR ''N'' else CHR ''n'');
          king = (if w then CHR ''K'' else CHR ''k'');
          bishop = (if w then CHR ''B'' else CHR ''b'');
          queen = (if w then CHR ''Q'' else CHR ''q'');
          rook = (if w then CHR ''R'' else CHR ''r'')
      in if list_ex (\<lambda>dx. onBoard (xx - dx) (yy - pawnDir)
                         \<and> rd b (yy - pawnDir) (xx - dx) = Some pawn) [-1, 1] then True
         else if list_ex (\<lambda>(dx, dy). onBoard (xx + dx) (yy + dy)
                         \<and> rd b (yy + dy) (xx + dx) = Some knight) jumps then True
         else if list_ex (\<lambda>(dx, dy). onBoard (xx + dx) (yy + dy)
                         \<and> rd b (yy + dy) (xx + dx) = Some king) kingSteps then True
         else if list_ex (\<lambda>(dx, dy). rayHits b (xx + dx) (yy + dy) dx dy byColor bishop queen)
                   diagonals then True
         else list_ex (\<lambda>(dx, dy). rayHits b (xx + dx) (yy + dy) dx dy byColor rook queen)
                   orthogonals)"

definition inCheck :: "state \<Rightarrow> string option \<Rightarrow> bool" where
  "inCheck s color =
     (case findKing (board s) color of None \<Rightarrow> False
      | Some king \<Rightarrow> isSquareAttacked s king (if color = Some ''w'' then ''b'' else ''w''))"

section \<open>Move generation\<close>

text \<open>
  A move object \<open>{ from, to, capture, pawnDouble, enPassant, castle, promotion }\<close>. A flag
  that the object does not carry is \<open>undefined\<close>, which every test of the code reads as
  false; \<open>castle\<close> and \<open>promotion\<close> are one-letter strings when present.
\<close>

record move =
  mfrom :: sq
  mto :: sq
  mcapture :: bool
  mpawnDouble :: bool
  menPassant :: bool
  mcastle :: "char option"
  mpromotion :: "char option"

text \<open>
  The closure \<open>addMove(toX, toY, flags)\<close>: the list of the moves it pushes (none or one).
  \<open>cap\<close> is the \<open>capture\<close> entry of \<open>flags\<close>, which replaces \<open>Boolean(dest)\<close> when given.
\<close>

definition addMove :: "board \<Rightarrow> string option \<Rightarrow> sq \<Rightarrow> int \<Rightarrow> int \<Rightarrow> bool option \<Rightarrow> bool \<Rightarrow> bool \<Rightarrow> move list" where
  "addMove b color frm toX toY cap pd ep =
     (if \<not> onBoard toX toY then []
      else let dest = rd b toY toX in
        if dest \<noteq> None \<and> pieceColor dest = color then []
        else [\<lparr> mfrom = frm, mto = (toX, toY),
                mcapture = (case cap of None \<Rightarrow> dest \<noteq> None | Some c \<Rightarrow> c),
                mpawnDouble = pd, menPassant = ep, mcastle = None, mpromotion = None \<rparr>])"

text \<open>One \<open>while\<close> loop of \<open>slide\<close>, from \<open>(xx, yy)\<close> in direction \<open>(dx, dy)\<close>.\<close>

function slideRay :: "board \<Rightarrow> string option \<Rightarrow> string \<Rightarrow> sq \<Rightarrow> int \<Rightarrow> int \<Rightarrow> int \<Rightarrow> int \<Rightarrow> move list" where
  "slideRay b color targetColor frm xx yy dx dy =
     (if onBoard xx yy \<and> (dx \<noteq> 0 \<or> dy \<noteq> 0) then
        (case rd b yy xx of
           None \<Rightarrow> addMove b color frm xx yy None False False
                   @ slideRay b color targetColor frm (xx + dx) (yy + dy) dx dy
         | Some dest \<Rightarrow>
             (if pieceColor (Some dest) = Some targetColor
              then addMove b color frm xx yy (Some True) False False else []))
      else [])"
  by pat_completeness auto
termination
  by (relation "measure (\<lambda>(b, color, targetColor, frm, xx, yy, dx, dy).
        if dx > 0 then nat (8 - xx) else if dx < 0 then nat (xx + 1)
        else if dy > 0 then nat (8 - yy) else nat (yy + 1))")
     (auto simp: onBoard_def)

declare slideRay.simps [simp del]

definition slide :: "board \<Rightarrow> string option \<Rightarrow> string \<Rightarrow> sq \<Rightarrow> (int \<times> int) list \<Rightarrow> move list" where
  "slide b color targetColor frm dirs =
     concat (map (\<lambda>(dx, dy). slideRay b color targetColor frm (fst frm + dx) (snd frm + dy) dx dy) dirs)"

definition pawnMoves :: "state \<Rightarrow> sq \<Rightarrow> string option \<Rightarrow> string \<Rightarrow> move list" where
  "pawnMoves s frm color targetColor =
     (case frm of (fx, fy) \<Rightarrow>
      let b = board s;
          dir = (if color = Some ''w'' then 1 else -1);
          startRank = (if color = Some ''w'' then 1 else 6)
      in (if onBoard fx (fy + dir) \<and> rd b (fy + dir) fx = None
          then addMove b color frm fx (fy + dir) None False False
               @ (if fy = startRank \<and> rd b (fy + 2 * dir) fx = None
                  then addMove b color frm fx (fy + 2 * dir) None True False else [])
          else [])
         @ concat (map (\<lambda>dx.
             let tx = fx + dx; ty = fy + dir in
             if \<not> onBoard tx ty then []
             else (let dest = rd b ty tx in
                   if dest \<noteq> None \<and> pieceColor dest = Some targetColor
                   then addMove b color frm tx ty (Some True) False False else [])
                  @ (let epsq = (case enPassant s of None \<Rightarrow> None
                                 | Some e \<Rightarrow> if e \<noteq> [] \<and> e \<noteq> ''-'' then Some (sqToIdx e) else None)
                     in if epsq = Some (tx, ty)
                        then addMove b color frm tx ty (Some True) False True else []))
             [-1, 1]))"

text \<open>
  The king's branch. \<open>castling.includes(...)\<close> is the first test of each castling
  condition and throws when \<open>castling\<close> is \<open>undefined\<close> (a position text with fewer than
  three fields).
\<close>

definition kingMoves :: "state \<Rightarrow> sq \<Rightarrow> string option \<Rightarrow> string \<Rightarrow> jsError + move list" where
  "kingMoves s frm color targetColor =
     (let b = board s;
          steps = concat (map (\<lambda>(dx, dy). addMove b color frm (fst frm + dx) (snd frm + dy) None False False)
                            kingSteps);
          rank = (if color = Some ''w'' then 0 else 7)
      in if \<not> inCheck s color then
           (case castling s of None \<Rightarrow> Inl TypeError
            | Some c \<Rightarrow>
                Inr (steps
                  @ (if (if color = Some ''w'' then CHR ''K'' \<in> set c else CHR ''k'' \<in> set c)
                        \<and> rd b rank 5 = None \<and> rd b rank 6 = None
                        \<and> \<not> isSquareAttacked s (5, rank) targetColor
                        \<and> \<not> isSquareAttacked s (6, rank) targetColor
                     then [\<lparr> mfrom = frm, mto = (6, rank), mcapture = False, mpawnDouble = False,
                             menPassant = False, mcastle = Some CHR ''K'', mpromotion = None \<rparr>]
                     else [])
                  @ (if (if color = Some ''w'' then CHR ''Q'' \<in> set c else CHR ''q'' \<in> set c)
                        \<and> rd b rank 1 = None \<and> rd b rank 2 = None \<and> rd b rank 3 = None
                        \<and> \<not> isSquareAttacked s (3, rank) targetColor
                        \<and> \<not> isSquareAttacked s (2, rank) targetColor
                     then [\<lparr> mfrom = frm, mto = (2, rank), mcapture = False, mpawnDouble = False,
                             menPassant = False, mcastle = Some CHR ''Q'', mpromotion = None \<rparr>]
                     else [])))
         else Inr steps)"

definition generatePieceMoves :: "state \<Rightarrow> sq \<Rightarrow> jsError + move list" where
  "generatePieceMoves s frm =
     (let b = board s in
      case rd b (snd frm) (fst frm) of None \<Rightarrow> Inr []
      | Some piece \<Rightarrow>
          let color = pieceColor (Some piece) in
          if color \<noteq> activeColor s then Inr []
          else let targetColor = (if color = Some ''w'' then ''b'' else ''w'');
                   p = toUpperCase piece
               in if p = CHR ''P'' then Inr (pawnMoves s frm color targetColor)
                  else if p = CHR ''N''
                    then Inr (concat (map (\<lambda>(dx, dy). addMove b color frm (fst frm + dx) (snd frm + dy)
                                                          None False False) jumps))
                  else if p = CHR ''B'' then Inr (slide b color targetColor frm diagonals)
                  else if p = CHR ''R'' then Inr (slide b color targetColor frm orthogonals)
                  else if p = CHR ''Q'' then Inr (slide b color targetColor frm (diagonals @ orthogonals))
                  else if p = CHR ''K'' then kingMoves s frm color targetColor
                  else Inr [])"

section \<open>Applying a move\<close>

text \<open>\<open>castling.replace(...)\<close>: throws when \<open>castling\<close> is \<open>undefined\<close>. A global
  character-class pattern removes every match, a string pattern the first.\<close>

definition replaceIn :: "string option \<Rightarrow> (string \<Rightarrow> string) \<Rightarrow> jsError + string option" where
  "replaceIn c f = (case c of None \<Rightarrow> Inl TypeError | Some t \<Rightarrow> Inr (Some (f t)))"

definition replaceWhen :: "bool \<Rightarrow> (string \<Rightarrow> string) \<Rightarrow> string option \<Rightarrow> jsError + string option" where
  "replaceWhen cond f c = (if cond then replaceIn c f else Inr c)"

text \<open>The updates of the castling rights in \<open>applyMove\<close>, in the order of the code:
  the king moved, a rook left its corner, a capture landed on a corner.\<close>

definition castlingAfter :: "state \<Rightarrow> move \<Rightarrow> char \<Rightarrow> jsError + string option" where
  "castlingAfter s m moved =
     (let fx = fst (mfrom m); fy = snd (mfrom m);
          tx = fst (mto m); ty = snd (mto m);
          w = (activeColor s = Some ''w'');
          rank = (if w then 0 else 7)
      in andThen (replaceWhen (moved = CHR ''K'')
                    (filter (\<lambda>ch. ch \<notin> set (if w then ''KQ'' else ''kq''))) (castling s)) (\<lambda>c1.
         andThen (replaceWhen (moved = CHR ''R'' \<and> fy = rank \<and> fx = 0)
                    (remove1 (if w then CHR ''Q'' else CHR ''q'')) c1) (\<lambda>c2.
         andThen (replaceWhen (moved = CHR ''R'' \<and> fy = rank \<and> fx = 7)
                    (remove1 (if w then CHR ''K'' else CHR ''k'')) c2) (\<lambda>c3.
         andThen (replaceWhen (mcapture m \<and> ty = 0 \<and> tx = 0) (remove1 CHR ''Q'') c3) (\<lambda>c4.
         andThen (replaceWhen (mcapture m \<and> ty = 0 \<and> tx = 7) (remove1 CHR ''K'') c4) (\<lambda>c5.
         andThen (replaceWhen (mcapture m \<and> ty = 7 \<and> tx = 0) (remove1 CHR ''q'') c5) (\<lambda>c6.
                 (replaceWhen (mcapture m \<and> ty = 7 \<and> tx = 7) (remove1 CHR ''k'') c6))))))))"

text \<open>The assignments to the cloned board in \<open>applyMove\<close>, in the order of the code: the
  origin is cleared, the pawn taken en passant is removed, the castling rook is moved,
  and the destination receives the moved piece or the promotion piece.\<close>

definition boardAfter :: "state \<Rightarrow> move \<Rightarrow> board" where
  "boardAfter s m =
     (let fx = fst (mfrom m); fy = snd (mfrom m);
          tx = fst (mto m); ty = snd (mto m);
          w = (activeColor s = Some ''w'');
          piece = rd (board s) fy fx;
          b1 = wr (board s) fy fx None;
          b2 = (if menPassant m then wr b1 (ty + (if w then -1 else 1)) tx None else b1);
          rank = (if w then 0 else 7);
          b3 = (if mcastle m \<noteq> None then
                  (if tx = 6 then wr (wr b2 rank 7 None) rank 5 (rd b2 rank 7)
                   else if tx = 2 then wr (wr b2 rank 0 None) rank 3 (rd b2 rank 0)
                   else b2)
                else b2)
      in wr b3 ty tx (case mpromotion m of
                        Some pr \<Rightarrow> Some (if w then pr else toLowerCase pr)
                      | None \<Rightarrow> piece))"

text \<open>\<open>piece.toUpperCase()\<close> throws when the origin square is empty.\<close>

definition applyMove :: "state \<Rightarrow> move \<Rightarrow> jsError + state" where
  "applyMove s m =
     (let fx = fst (mfrom m); fy = snd (mfrom m);
          w = (activeColor s = Some ''w'')
      in case rd (board s) fy fx of None \<Rightarrow> Inl TypeError
         | Some pc \<Rightarrow>
             let moved = toUpperCase pc in
             andThen (castlingAfter s m moved) (\<lambda>c7.
             let next = (if w then ''b'' else ''w'') in
             Inr \<lparr> board = boardAfter s m,
                   activeColor = Some next,
                   castling = c7,
                   enPassant = (if mpawnDouble m then Some (idxToSq fx (fy + (if w then 1 else -1)))
                                else Some ''-''),
                   halfmove = (if moved = CHR ''P'' \<or> mcapture m then Num 0 else jsInc (halfmove s)),
                   fullmove = (if next = ''w'' then jsInc (fullmove s) else fullmove s) \<rparr>))"

section \<open>Legal moves\<close>

text \<open>The inner loop of \<open>allLegalMoves\<close>: keep a move when the mover's king is not attacked
  after it.\<close>

fun keepLegal :: "state \<Rightarrow> move list \<Rightarrow> jsError + move list" where
  "keepLegal s [] = Inr []"
| "keepLegal s (m # ms) =
     (case applyMove s m of Inl e \<Rightarrow> Inl e
      | Inr next \<Rightarrow>
          (case keepLegal s ms of Inl e \<Rightarrow> Inl e
           | Inr rest \<Rightarrow> Inr (if \<not> inCheck next (activeColor s) then m # rest else rest)))"

fun legalLoop :: "state \<Rightarrow> sq list \<Rightarrow> jsError + move list" where
  "legalLoop s [] = Inr []"
| "legalLoop s (q # qs) =
     (case rd (board s) (snd q) (fst q) of None \<Rightarrow> legalLoop s qs
      | Some p \<Rightarrow>
          if pieceColor (Some p) \<noteq> activeColor s then legalLoop s qs
          else (case generatePieceMoves s q of Inl e \<Rightarrow> Inl e
                | Inr ms \<Rightarrow>
                    (case keepLegal s ms of Inl e \<Rightarrow> Inl e
                     | Inr legal \<Rightarrow>
                         (case legalLoop s qs of Inl e \<Rightarrow> Inl e
                          | Inr rest \<Rightarrow> Inr (legal @ rest)))))"

definition allLegalMoves :: "state \<Rightarrow> jsError + move list" where
  "allLegalMoves s = legalLoop s allSquares"

section \<open>Move tokens\<close>

text \<open>
  What \<open>parseSan\<close> returns: \<open>{ castle }\<close> for a castling token, else the object with
  the piece letter, the destination, the capture flag, the promotion letter, the
  disambiguating file and rank and the source file of a pawn capture; \<open>null\<close> is \<open>None\<close>.
\<close>

record parsed =
  pieceLetter :: char
  pto :: sq
  pcapture :: bool
  ppromotion :: "char option"
  disFile :: "char option"
  disRank :: "char option"
  pawnFromFile :: "char option"

datatype san = CastleSan char | MoveSan parsed

definition isSpace :: "char \<Rightarrow> bool" where
  "isSpace c = ((of_char c :: int) = 32 \<or> (9 \<le> (of_char c :: int) \<and> (of_char c :: int) \<le> 13))"

definition trim :: "string \<Rightarrow> string" where
  "trim s = rev (dropWhile isSpace (rev (dropWhile isSpace s)))"

definition isPromoLetter :: "char \<Rightarrow> bool" where
  "isPromoLetter c = (c \<in> set ''QRBN'')"

definition isPieceLetter :: "char \<Rightarrow> bool" where
  "isPieceLetter c = (c \<in> set ''KQRBN'')"

definition isFile :: "char \<Rightarrow> bool" where
  "isFile c = (c \<in> set ''abcdefgh'')"

definition isRank :: "char \<Rightarrow> bool" where
  "isRank c = (c \<in> set ''12345678'')"

text \<open>\<open>san.match(/=([QRBN])/)\<close>: the letter of the leftmost match.\<close>

fun promotionMatch :: "string \<Rightarrow> char option" where
  "promotionMatch (a # c # s) =
     (if a = CHR ''='' \<and> isPromoLetter c then Some c else promotionMatch (c # s))"
| "promotionMatch s = None"

text \<open>\<open>san.replace(/=([QRBN])/g, '')\<close>: every match removed, left to right.\<close>

fun stripPromotions :: "string \<Rightarrow> string" where
  "stripPromotions (a # c # s) =
     (if a = CHR ''='' \<and> isPromoLetter c then stripPromotions s else a # stripPromotions (c # s))"
| "stripPromotions s = s"

text \<open>\<open>/([a-h][1-8])$/\<close>: the last two characters, when they are a file and a rank.\<close>

definition destMatch :: "string \<Rightarrow> string option" where
  "destMatch s = (case rev s of
                    r # f # rest \<Rightarrow> if isFile f \<and> isRank r then Some [f, r] else None
                  | _ \<Rightarrow> None)"

definition parseSan :: "state \<Rightarrow> string \<Rightarrow> san option" where
  "parseSan s sanRaw =
     (let t = trim (filter (\<lambda>c. c \<noteq> CHR ''+'' \<and> c \<noteq> CHR ''#'') sanRaw) in
      if t = ''O-O'' \<or> t = ''0-0'' then Some (CastleSan CHR ''K'')
      else if t = ''O-O-O'' \<or> t = ''0-0-0'' then Some (CastleSan CHR ''Q'')
      else
        let promotion = promotionMatch t;
            cleaned = stripPromotions t;
            capture = (CHR ''x'' \<in> set cleaned);
            letter = (case cleaned of c # cs \<Rightarrow> if isPieceLetter c then c else CHR ''P''
                      | [] \<Rightarrow> CHR ''P'')
        in case destMatch cleaned of None \<Rightarrow> None
           | Some toSq \<Rightarrow>
               let between0 = (case cleaned of c # cs \<Rightarrow> if isPieceLetter c then cs else cleaned
                               | [] \<Rightarrow> cleaned);
                   between1 = remove1 CHR ''x'' between0;
                   between = (case destMatch between1 of None \<Rightarrow> between1
                              | Some d \<Rightarrow> take (length between1 - 2) between1)
               in Some (MoveSan \<lparr> pieceLetter = letter,
                                    pto = sqToIdx toSq,
                                    pcapture = capture,
                                    ppromotion = promotion,
                                    disFile = find isFile between,
                                    disRank = find isRank between,
                                    pawnFromFile = (if letter = CHR ''P'' \<and> capture
                                                    then nthOpt cleaned 0 else None) \<rparr>))"

section \<open>validateAndApplySanMove\<close>

record status =
  check :: bool
  checkmate :: bool
  stalemate :: bool

text \<open>The returned object: \<open>{ ok: false, error }\<close> or \<open>{ ok: true, fenAfter, status }\<close>.\<close>

datatype outcome = Rejected string | Accepted string status

definition fileOf :: "move \<Rightarrow> char option" where
  "fileOf m = nthOpt FILES (fst (mfrom m))"

definition rankOf :: "move \<Rightarrow> char option" where
  "rankOf m = nthOpt RANKS (snd (mfrom m))"

text \<open>The filters between \<open>let candidates = legalMoves\<close> and the test of
  \<open>candidates.length\<close>.\<close>

definition candidatesOf :: "state \<Rightarrow> san \<Rightarrow> move list \<Rightarrow> move list" where
  "candidatesOf s pr legalMoves =
     (case pr of
        CastleSan side \<Rightarrow>
          (let rank = (if activeColor s = Some ''w'' then 0 else 7);
               toX = (if side = CHR ''K'' then 6 else 2)
           in filter (\<lambda>m. mcastle m \<noteq> None \<and> fst (mto m) = toX \<and> snd (mto m) = rank) legalMoves)
      | MoveSan p \<Rightarrow>
          (let desiredPiece = (if activeColor s = Some ''w'' then pieceLetter p
                               else toLowerCase (pieceLetter p));
               c0 = filter (\<lambda>m. rd (board s) (snd (mfrom m)) (fst (mfrom m)) = Some desiredPiece
                                 \<and> mto m = pto p \<and> mcapture m = pcapture p) legalMoves;
               c1 = (if disFile p \<noteq> None then filter (\<lambda>m. fileOf m = disFile p) c0 else c0);
               c2 = (if disRank p \<noteq> None then filter (\<lambda>m. rankOf m = disRank p) c1 else c1);
               c3 = (if pawnFromFile p \<noteq> None then filter (\<lambda>m. fileOf m = pawnFromFile p) c2 else c2)
           in if ppromotion p \<noteq> None then map (\<lambda>m. m\<lparr> mpromotion := ppromotion p \<rparr>) c3 else c3))"

text \<open>From the test of \<open>candidates.length\<close> to the end.\<close>

definition conclude :: "state \<Rightarrow> move list \<Rightarrow> jsError + outcome" where
  "conclude s candidates =
     (if length candidates \<noteq> 1
      then Inr (Rejected (if length candidates = 0 then ''Illegal move'' else ''Ambiguous move''))
      else andThen (applyMove s (candidates ! 0)) (\<lambda>next.
           let opponent = activeColor next;
               oppInCheck = inCheck next opponent
           in andThen (allLegalMoves next) (\<lambda>oppLegal.
              Inr (Accepted (toFen next)
                     \<lparr> check = oppInCheck,
                       checkmate = (oppInCheck \<and> length oppLegal = 0),
                       stalemate = (\<not> oppInCheck \<and> length oppLegal = 0) \<rparr>))))"

definition validateAndApplySanMove :: "string \<Rightarrow> string \<Rightarrow> jsError + outcome" where
  "validateAndApplySanMove fen sanRaw =
     andThen (parseFen fen) (\<lambda>s.
       case parseSan s sanRaw of None \<Rightarrow> Inr (Rejected ''Invalid SAN format'')
       | Some pr \<Rightarrow>
           andThen (allLegalMoves s) (\<lambda>legalMoves.
             conclude s (candidatesOf s pr legalMoves)))"

section \<open>Game sessions\<close>

text \<open>
  \<open>GamesController.submitMove\<close> (\<open>src/backend_express/src/controllers/games.js\<close>) reads
  and writes three tables. A row of \<open>games\<close> is a \<open>game\<close>; the store is passed in and
  returned. One request runs at a time here: the row read under \<open>FOR UPDATE\<close> is the row
  of the same store. The rating formula works on floating-point numbers and is a
  parameter \<open>elo\<close>; the broadcast to the connection hub is not part of the store.
\<close>

type_synonym userId = string
type_synonym gameId = string

record game =
  white_user_id :: userId
  black_user_id :: userId
  gstatus :: string
  moves :: "string list option"
  current_fen :: string
  winner_user_id :: "userId option"

record moveRow =
  game_id :: gameId
  move_number :: int
  san_text :: string
  fen_after :: string

record store =
  games :: "gameId \<rightharpoonup> game"
  game_moves :: "moveRow list"
  ratings :: "userId \<rightharpoonup> int"

datatype score = Win | Draw | Loss

text \<open>What the handler answers: \<open>res.status(code).json({ status: 'error', message })\<close>,
  the 200 answer with the updated row and the move, or \<open>next(err)\<close>.\<close>

datatype response =
  Json int string
| MoveOk game string string int
| Next jsError

definition START_FEN :: string where
  "START_FEN = ''rnbqkbnr/pppppppp/8/8/8/8/PPPPPPPP/RNBQKBNR w KQkq - 0 1''"

definition finalizeRatings :: "(int \<Rightarrow> int \<Rightarrow> score \<Rightarrow> int) \<Rightarrow> store \<Rightarrow> game \<Rightarrow> bool \<Rightarrow> store" where
  "finalizeRatings elo db g draw =
     (let whiteId = white_user_id g;
          blackId = black_user_id g;
          whiteRating = (case ratings db whiteId of None \<Rightarrow> 1200 | Some r \<Rightarrow> r);
          blackRating = (case ratings db blackId of None \<Rightarrow> 1200 | Some r \<Rightarrow> r);
          scoreWhite = (if draw then Draw
                        else if winner_user_id g = Some whiteId then Win else Loss);
          deltaWhite = elo whiteRating blackRating scoreWhite;
          deltaBlack = - deltaWhite;
          db1 = db\<lparr> ratings := (ratings db)(whiteId \<mapsto> max 0 (whiteRating + deltaWhite)) \<rparr>
      in db1\<lparr> ratings := (ratings db1)(blackId \<mapsto> max 0 (blackRating + deltaBlack)) \<rparr>)"

definition commitMove :: "(int \<Rightarrow> int \<Rightarrow> score \<Rightarrow> int) \<Rightarrow> store \<Rightarrow> gameId \<Rightarrow> userId \<Rightarrow> string
    \<Rightarrow> string \<Rightarrow> status \<Rightarrow> int \<Rightarrow> response \<times> store" where
  "commitMove elo db gameId userId sanRaw fenAfter st moveNumber =
     (case games db gameId of None \<Rightarrow> (Json 404 ''Game not found'', db)
      | Some lock \<Rightarrow>
          if gstatus lock \<noteq> ''active'' then (Json 409 ''Game not active'', db)
          else
            let db1 = db\<lparr> game_moves := game_moves db
                         @ [\<lparr> game_id = gameId, move_number = moveNumber,
                               san_text = sanRaw, fen_after = fenAfter \<rparr>] \<rparr>;
                newMoves = (case moves lock of None \<Rightarrow> [] | Some ms \<Rightarrow> ms) @ [sanRaw];
                newStatus = (if checkmate st \<or> stalemate st then ''finished'' else ''active'');
                winnerUserId = (if checkmate st then Some userId else None);
                updatedGame = lock\<lparr> moves := Some newMoves, current_fen := fenAfter,
                                    gstatus := newStatus, winner_user_id := winnerUserId \<rparr>;
                db2 = db1\<lparr> games := (games db1)(gameId \<mapsto> updatedGame) \<rparr>;
                db3 = (if newStatus = ''finished'' then finalizeRatings elo db2 updatedGame False
                       else db2)
            in (MoveOk updatedGame sanRaw fenAfter moveNumber, db3))"

definition submitMove :: "(int \<Rightarrow> int \<Rightarrow> score \<Rightarrow> int) \<Rightarrow> store \<Rightarrow> gameId \<Rightarrow> userId \<Rightarrow> string
    \<Rightarrow> response \<times> store" where
  "submitMove elo db gameId userId sanRaw =
     (case games db gameId of None \<Rightarrow> (Json 404 ''Game not found'', db)
      | Some g \<Rightarrow>
          if gstatus g \<noteq> ''active'' then (Json 409 ''Game not active'', db)
          else if white_user_id g \<noteq> userId \<and> black_user_id g \<noteq> userId
            then (Json 403 ''Not a player in this game'', db)
          else
            let turn = nthOpt (splitOn CHR '' '' (current_fen g)) 1;
                expectedUserId = (if turn = Some ''w'' then white_user_id g else black_user_id g)
            in if expectedUserId \<noteq> userId then (Json 409 ''Not your turn'', db)
               else (case validateAndApplySanMove (current_fen g) sanRaw of
                       Inl e \<Rightarrow> (Next e, db)
                     | Inr (Rejected err) \<Rightarrow> (Json 400 err, db)
                     | Inr (Accepted fenAfter st) \<Rightarrow>
                         commitMove elo db gameId userId sanRaw fenAfter st
                           ((case moves g of None \<Rightarrow> 0 | Some ms \<Rightarrow> int (length ms)) + 1)))"

text \<open>A sequence of submissions to one game, each by the given user.\<close>

definition submitAll :: "(int \<Rightarrow> int \<Rightarrow> score \<Rightarrow> int) \<Rightarrow> store \<Rightarrow> gameId \<Rightarrow> (userId \<times> string) list \<Rightarrow> store" where
  "submitAll elo db gid plies = fold (\<lambda>(uid, tok) d. snd (submitMove elo d gid uid tok)) plies db"

section \<open>Matchmaking\<close>

text \<open>
  \<open>MatchmakingController.tryMatch\<close> reads the queue, ordered by \<open>queued_at\<close>, twice:
  \<open>queueAtRead\<close> is the table at the first \<open>SELECT\<close> (user and rating snapshot, two
  rows at most), \<open>queueAtLock\<close> the table at the second one (\<open>SELECT user_id ... FOR
  UPDATE SKIP LOCKED\<close>, inside the transaction). Other requests run between the two, so
  the two tables are separate arguments. The result is \<open>{ whiteUserId, blackUserId }\<close> of
  the new game, or \<open>null\<close>.
\<close>

record queueRow =
  user_id :: userId
  rating_snapshot :: int

definition ratingOf :: "(userId \<times> int) list \<Rightarrow> userId \<Rightarrow> int \<Rightarrow> int" where
  "ratingOf ratingRows u fallback =
     (case find (\<lambda>r. fst r = u) ratingRows of None \<Rightarrow> fallback | Some r \<Rightarrow> snd r)"

definition tryMatchReads :: "queueRow list \<Rightarrow> queueRow list \<Rightarrow> (userId \<times> userId) option" where
  "tryMatchReads queueAtRead queueAtLock =
     (case take 2 queueAtRead of
        a # b # rest \<Rightarrow>
          if user_id a = user_id b then None
          else (case map user_id (take 2 queueAtLock) of
                  userA # userB # rest' \<Rightarrow>
                    let ratingRows = [(userA, rating_snapshot a), (userB, rating_snapshot b)];
                        ra = ratingOf ratingRows userA (rating_snapshot a);
                        rb = ratingOf ratingRows userB (rating_snapshot b);
                        whiteUserId = (if ra \<ge> rb then userA else userB);
                        blackUserId = (if whiteUserId = userA then userB else userA)
                    in Some (whiteUserId, blackUserId)
                | _ \<Rightarrow> None)
      | _ \<Rightarrow> None)"

text \<open>One request alone: both reads see the same table.\<close>

definition tryMatch :: "queueRow list \<Rightarrow> (userId \<times> userId) option" where
  "tryMatch queue = tryMatchReads queue queue"

section \<open>Example inputs\<close>

text \<open>Two kings on their home squares, White to move
  (\<open>4k3/8/8/8/8/8/8/4K3 w - - 0 1\<close>).\<close>

definition emptyRow :: "piece list" where
  "emptyRow = replicate 8 None"

definition kingsOnly :: state where
  "kingsOnly = \<lparr> board = [emptyRow[4 := Some CHR ''K''], emptyRow, emptyRow, emptyRow,
                           emptyRow, emptyRow, emptyRow, emptyRow[4 := Some CHR ''k'']],
                  activeColor = Some ''w'', castling = Some [], enPassant = Some ''-'',
                  halfmove = Num 0, fullmove = Num 1 \<rparr>"

definition kingStep :: move where
  "kingStep = \<lparr> mfrom = (4, 0), mto = (4, 1), mcapture = False, mpawnDouble = False,
                 menPassant = False, mcastle = None, mpromotion = None \<rparr>"

text \<open>The white king alone: Black has no king.\<close>

definition loneKing :: state where
  "loneKing = kingsOnly\<lparr> board := [emptyRow[4 := Some CHR ''K''], emptyRow, emptyRow, emptyRow,
                                    emptyRow, emptyRow, emptyRow, emptyRow] \<rparr>"

text \<open>A game between two users that has just started, and the store that holds it.\<close>

definition newGame :: "userId \<Rightarrow> userId \<Rightarrow> game" where
  "newGame w b = \<lparr> white_user_id = w, black_user_id = b, gstatus = ''active'',
                   moves = Some [], current_fen = START_FEN, winner_user_id = None \<rparr>"

definition newStore :: "gameId \<Rightarrow> game \<Rightarrow> store" where
  "newStore gid g = \<lparr> games = [gid \<mapsto> g], game_moves = [], ratings = Map.empty \<rparr>"

section \<open>Well-formed positions and legal play\<close>

text \<open>The pieces that occur on a board in play, and the rows and boards made of them.\<close>

definition isPieceChar :: "char \<Rightarrow> bool" where
  "isPieceChar c = (c \<in> set ''PNBRQKpnbrqk'')"

definition validSquare :: "piece \<Rightarrow> bool" where
  "validSquare p = (case p of None \<Rightarrow> True | Some c \<Rightarrow> isPieceChar c)"

definition validRow :: "piece list \<Rightarrow> bool" where
  "validRow row = (length row = 8 \<and> list_all validSquare row)"

text \<open>
  A position as the engine produces it: an 8 by 8 board of pieces, a side to move, a
  castling string over \<open>KQkq\<close>, a non-empty en-passant field without spaces, and two
  counters that are non-negative integers.
\<close>

definition wellFormed :: "state \<Rightarrow> bool" where
  "wellFormed s =
     (length (board s) = 8 \<and> list_all validRow (board s)
      \<and> (activeColor s = Some ''w'' \<or> activeColor s = Some ''b'')
      \<and> (case castling s of None \<Rightarrow> False | Some c \<Rightarrow> list_all (\<lambda>ch. ch \<in> set ''KQkq'') c)
      \<and> (case enPassant s of None \<Rightarrow> False | Some e \<Rightarrow> e \<noteq> [] \<and> CHR '' '' \<notin> set e)
      \<and> (case halfmove s of NaN \<Rightarrow> False | Num h \<Rightarrow> 0 \<le> h)
      \<and> (case fullmove s of NaN \<Rightarrow> False | Num f \<Rightarrow> 0 \<le> f))"

text \<open>
  The positions of legal play: the starting position, and every position that
  \<open>applyMove\<close> returns for a reachable position and one of its legal moves, taken as
  \<open>allLegalMoves\<close> lists it or with the promotion letter that the resolver attaches.
\<close>

inductive reachable :: "state \<Rightarrow> bool" where
  start: "parseFen START_FEN = Inr s \<Longrightarrow> reachable s"
| step: "reachable s \<Longrightarrow> allLegalMoves s = Inr ms \<Longrightarrow> m \<in> set ms
           \<Longrightarrow> applyMove s m = Inr n \<Longrightarrow> reachable n"
| promote: "reachable s \<Longrightarrow> allLegalMoves s = Inr ms \<Longrightarrow> m \<in> set ms \<Longrightarrow> isPromoLetter c
           \<Longrightarrow> applyMove s (m\<lparr>mpromotion := Some c\<rparr>) = Inr n \<Longrightarrow> reachable n"

text \<open>The text that the loop of \<open>toFen\<close> writes for the squares \<open>ps\<close> of a row after a run
  of \<open>run\<close> empty squares, and the loop of \<open>parseFen\<close> on one row.\<close>

fun encTail :: "piece list \<Rightarrow> int \<Rightarrow> string" where
  "encTail [] run = (if run \<noteq> 0 then showDec run else [])"
| "encTail (None # ps) run = encTail ps (run + 1)"
| "encTail (Some c # ps) run = (if run \<noteq> 0 then showDec run else []) @ c # encTail ps 0"

fun decRow :: "string \<Rightarrow> int \<Rightarrow> piece list \<Rightarrow> piece list" where
  "decRow [] f row = row"
| "decRow (ch # cs) f row =
     (if isDigit ch then decRow cs (f + digitVal ch) row
      else decRow cs (f + 1) (jsSet row f (Some ch)))"

text \<open>The starting position, and the position after the first move \<open>e4\<close>.\<close>

definition startPosition :: state where
  "startPosition =
     \<lparr> board = [map Some ''RNBQKBNR'', replicate 8 (Some CHR ''P''), emptyRow, emptyRow,
                 emptyRow, emptyRow, replicate 8 (Some CHR ''p''), map Some ''rnbqkbnr''],
       activeColor = Some ''w'', castling = Some ''KQkq'', enPassant = Some ''-'',
       halfmove = Num 0, fullmove = Num 1 \<rparr>"

definition pawnE4 :: move where
  "pawnE4 = \<lparr> mfrom = (4, 1), mto = (4, 3), mcapture = False, mpawnDouble = True,
               menPassant = False, mcastle = None, mpromotion = None \<rparr>"

definition afterE4 :: state where
  "afterE4 = startPosition
     \<lparr> board := [map Some ''RNBQKBNR'', (replicate 8 (Some CHR ''P''))[4 := None], emptyRow,
                 emptyRow[4 := Some CHR ''P''], emptyRow, emptyRow,
                 replicate 8 (Some CHR ''p''), map Some ''rnbqkbnr''],
       activeColor := Some ''b'', enPassant := Some ''e3'' \<rparr>"

section \<open>Auxiliary facts\<close>

lemma andThen_simps [simp]:
  "andThen (Inl e) f = Inl e"
  "andThen (Inr v) f = f v"
  by (simp_all add: andThen_def)

lemma replaceWhen_Some [simp]:
  "replaceWhen c f (Some t) = Inr (Some (if c then f t else t))"
  by (simp add: replaceWhen_def replaceIn_def)

subsection \<open>Generated moves start on the square asked for\<close>

lemma in_remove1D: "x \<in> set (remove1 y xs) \<Longrightarrow> x \<in> set xs"
  using set_remove1_subset by fastforce

lemma castlingAfter_Some:
  assumes "castling s = Some c"
  shows "\<exists>c'. castlingAfter s m moved = Inr (Some c') \<and> set c' \<subseteq> set c"
  using assms
  by (auto simp: castlingAfter_def Let_def dest!: in_remove1D)

lemma castlingAfter_promotion [simp]:
  "castlingAfter s (m\<lparr>mpromotion := pr\<rparr>) moved = castlingAfter s m moved"
  by (simp add: castlingAfter_def)

lemma applyMove_total:
  assumes "castling s = Some c" and "rd (board s) (snd (mfrom m)) (fst (mfrom m)) = Some pc"
  shows "\<exists>n. applyMove s m = Inr n"
proof -
  from castlingAfter_Some [OF assms(1)] obtain c' where
    "castlingAfter s m (toUpperCase pc) = Inr (Some c')" by blast
  with assms(2) show ?thesis by (simp add: applyMove_def Let_def)
qed

lemma andThen_Inr_iff: "andThen r f = Inr n \<longleftrightarrow> (\<exists>v. r = Inr v \<and> f v = Inr n)"
  by (cases r) auto

lemma applyMove_Inr:
  assumes "applyMove s m = Inr n"
  obtains pc c7 where "rd (board s) (snd (mfrom m)) (fst (mfrom m)) = Some pc"
    and "castlingAfter s m (toUpperCase pc) = Inr c7"
  using assms
  by (auto simp: applyMove_def Let_def andThen_Inr_iff split: option.splits)

lemma applyMove_promotion_total:
  assumes "applyMove s m = Inr n"
  shows "\<exists>n'. applyMove s (m\<lparr>mpromotion := pr\<rparr>) = Inr n'"
proof -
  from assms obtain pc c7 where "rd (board s) (snd (mfrom m)) (fst (mfrom m)) = Some pc"
    and "castlingAfter s m (toUpperCase pc) = Inr c7" by (rule applyMove_Inr)
  then show ?thesis by (simp add: applyMove_def Let_def)
qed

lemma addMove_from: "m \<in> set (addMove b color frm toX toY cap pd ep) \<Longrightarrow> mfrom m = frm"
  by (auto simp: addMove_def Let_def split: if_splits)

lemma slideRay_mem:
  "m \<in> set (slideRay b color tc frm xx yy dx dy) \<Longrightarrow>
     \<exists>x y cap. m \<in> set (addMove b color frm x y cap False False)"
proof (induction b color tc frm xx yy dx dy rule: slideRay.induct)
  case (1 b color tc frm xx yy dx dy)
  show ?case
  proof (cases "onBoard xx yy \<and> (dx \<noteq> 0 \<or> dy \<noteq> 0)")
    case False
    with "1.prems" show ?thesis by (subst (asm) slideRay.simps) simp
  next
    case True
    show ?thesis
    proof (cases "rd b yy xx")
      case None
      with True "1.prems" have "m \<in> set (addMove b color frm xx yy None False False)
          \<or> m \<in> set (slideRay b color tc frm (xx + dx) (yy + dy) dx dy)"
        by (subst (asm) slideRay.simps) auto
      with "1.IH" [OF True None] show ?thesis by blast
    next
      case (Some d)
      with True "1.prems" have "m \<in> set (addMove b color frm xx yy (Some True) False False)"
        by (subst (asm) slideRay.simps) (auto split: if_splits)
      then show ?thesis by blast
    qed
  qed
qed

lemma slide_mem:
  "m \<in> set (slide b color tc frm dirs) \<Longrightarrow>
     \<exists>x y cap. m \<in> set (addMove b color frm x y cap False False)"
  by (auto simp: slide_def dest: slideRay_mem)

lemma slide_from: "m \<in> set (slide b color tc frm dirs) \<Longrightarrow> mfrom m = frm"
  by (blast dest: slide_mem addMove_from)

lemma pawnMoves_from: "m \<in> set (pawnMoves s frm color tc) \<Longrightarrow> mfrom m = frm"
  by (auto simp: pawnMoves_def Let_def split: prod.splits if_splits dest: addMove_from)

lemma kingMoves_from: "kingMoves s frm color tc = Inr ms \<Longrightarrow> m \<in> set ms \<Longrightarrow> mfrom m = frm"
  by (auto simp: kingMoves_def Let_def split: if_splits option.splits dest: addMove_from)

lemma generatePieceMoves_from:
  assumes "generatePieceMoves s q = Inr ms" and "m \<in> set ms"
  shows "mfrom m = q \<and> rd (board s) (snd q) (fst q) \<noteq> None"
  using assms
  by (auto simp: generatePieceMoves_def Let_def split: option.splits if_splits
      dest: addMove_from slide_from pawnMoves_from kingMoves_from)

subsection \<open>Nothing throws when the castling field is a string\<close>

lemma kingMoves_total: "castling s = Some c \<Longrightarrow> \<exists>ms. kingMoves s frm color tc = Inr ms"
  by (simp add: kingMoves_def Let_def)

lemma generatePieceMoves_total: "castling s = Some c \<Longrightarrow> \<exists>ms. generatePieceMoves s q = Inr ms"
  using kingMoves_total [of s c]
  by (auto simp: generatePieceMoves_def Let_def split: option.splits)

lemma keepLegal_total:
  assumes "castling s = Some c"
    and "\<forall>m\<in>set ms. rd (board s) (snd (mfrom m)) (fst (mfrom m)) \<noteq> None"
  shows "\<exists>l. keepLegal s ms = Inr l"
  using assms(2)
proof (induction ms)
  case Nil
  then show ?case by simp
next
  case (Cons m ms)
  then obtain pc where "rd (board s) (snd (mfrom m)) (fst (mfrom m)) = Some pc" by auto
  from applyMove_total [OF assms(1) this] obtain n where "applyMove s m = Inr n" ..
  moreover from Cons obtain l where "keepLegal s ms = Inr l" by auto
  ultimately show ?case by simp
qed

lemma legalLoop_total:
  assumes "castling s = Some c"
  shows "\<exists>l. legalLoop s qs = Inr l"
proof (induction qs)
  case Nil
  then show ?case by simp
next
  case (Cons q qs)
  then obtain rest where rest: "legalLoop s qs = Inr rest" ..
  obtain ms where ms: "generatePieceMoves s q = Inr ms"
    using generatePieceMoves_total [OF assms] by blast
  have "\<forall>m\<in>set ms. rd (board s) (snd (mfrom m)) (fst (mfrom m)) \<noteq> None"
    using generatePieceMoves_from [OF ms] by auto
  from keepLegal_total [OF assms this] obtain l where "keepLegal s ms = Inr l" ..
  with rest ms show ?case by (auto split: option.splits)
qed

subsection \<open>What the legality filter keeps\<close>

lemma keepLegal_sound:
  "keepLegal s ms = Inr l \<Longrightarrow> m \<in> set l \<Longrightarrow>
     m \<in> set ms \<and> (\<exists>n. applyMove s m = Inr n \<and> \<not> inCheck n (activeColor s))"
proof (induction ms arbitrary: l)
  case Nil
  then show ?case by simp
next
  case (Cons a ms)
  then show ?case
    by (auto split: sum.splits if_splits)
qed

lemma legalLoop_sound:
  "legalLoop s qs = Inr l \<Longrightarrow> m \<in> set l \<Longrightarrow>
     (\<exists>q ms n. q \<in> set qs \<and> generatePieceMoves s q = Inr ms \<and> m \<in> set ms
        \<and> applyMove s m = Inr n \<and> \<not> inCheck n (activeColor s))"
proof (induction qs arbitrary: l)
  case Nil
  then show ?case by simp
next
  case (Cons q qs)
  let ?G = "\<lambda>qs. \<exists>q ms n. q \<in> set qs \<and> generatePieceMoves s q = Inr ms \<and> m \<in> set ms
        \<and> applyMove s m = Inr n \<and> \<not> inCheck n (activeColor s)"
  have up: "?G qs \<Longrightarrow> ?G (q # qs)" by auto
  show ?case
  proof (cases "rd (board s) (snd q) (fst q) \<noteq> None
                \<and> pieceColor (rd (board s) (snd q) (fst q)) = activeColor s")
    case False
    with Cons.prems have "legalLoop s qs = Inr l" by (auto split: option.splits if_splits)
    from Cons.IH [OF this Cons.prems(2)] up show ?thesis by blast
  next
    case True
    with Cons.prems obtain ms legal rest where
      g: "generatePieceMoves s q = Inr ms" and k: "keepLegal s ms = Inr legal"
      and r: "legalLoop s qs = Inr rest" and l: "l = legal @ rest"
      by (auto split: option.splits if_splits sum.splits)
    from l Cons.prems(2) consider "m \<in> set legal" | "m \<in> set rest" by auto
    then show ?thesis
    proof cases
      case 1
      from keepLegal_sound [OF k 1] obtain n where
        "m \<in> set ms" "applyMove s m = Inr n" "\<not> inCheck n (activeColor s)" by blast
      with g have "q \<in> set (q # qs) \<and> generatePieceMoves s q = Inr ms \<and> m \<in> set ms
        \<and> applyMove s m = Inr n \<and> \<not> inCheck n (activeColor s)" by simp
      then show ?thesis by blast
    next
      case 2
      from Cons.IH [OF r 2] up show ?thesis by blast
    qed
  qed
qed

lemma kingsOnly_legal:
  "allLegalMoves kingsOnly = Inr
     [kingStep\<lparr>mto := (3, 0)\<rparr>, kingStep\<lparr>mto := (3, 1)\<rparr>, kingStep,
      kingStep\<lparr>mto := (5, 0)\<rparr>, kingStep\<lparr>mto := (5, 1)\<rparr>]"
  by code_simp

section \<open>Claims\<close>

text \<open>
  C1 (legality closure). Every move in the list that \<open>allLegalMoves\<close> returns for a
  position can be applied, and in the position it leads to the king of the side that
  moved is not attacked: \<open>inCheck\<close> of the mover's colour is false there.
\<close>

theorem allLegalMoves_leave_king_safe:
  assumes "allLegalMoves p = Inr ms" and "m \<in> set ms"
  shows "\<exists>n. applyMove p m = Inr n \<and> \<not> inCheck n (activeColor p)"
  using legalLoop_sound [of p allSquares ms m] assms
  by (auto simp: allLegalMoves_def)

theorem allLegalMoves_leave_king_safe_witness:
  "kingStep \<in> set [kingStep\<lparr>mto := (3, 0)\<rparr>, kingStep\<lparr>mto := (3, 1)\<rparr>, kingStep,
                    kingStep\<lparr>mto := (5, 0)\<rparr>, kingStep\<lparr>mto := (5, 1)\<rparr>]
   \<and> (\<exists>n. applyMove kingsOnly kingStep = Inr n \<and> \<not> inCheck n (activeColor kingsOnly))"
proof -
  have mem: "kingStep \<in> set [kingStep\<lparr>mto := (3, 0)\<rparr>, kingStep\<lparr>mto := (3, 1)\<rparr>, kingStep,
                    kingStep\<lparr>mto := (5, 0)\<rparr>, kingStep\<lparr>mto := (5, 1)\<rparr>]"
    by simp
  from allLegalMoves_leave_king_safe [OF kingsOnly_legal mem] mem show ?thesis by blast
qed

text \<open>
  C4 (turn enforcement). In an active game, a move submitted by a participant who is
  not the one to move (the user of the colour in the second field of the stored
  position text) is answered with status 409 and the message \<open>Not your turn\<close>, and the
  store is returned as it was: the game's position, move list and status are unchanged.
\<close>

theorem submitMove_not_your_turn:
  assumes "games db gid = Some g"
    and "gstatus g = ''active''"
    and "uid = white_user_id g \<or> uid = black_user_id g"
    and "uid \<noteq> (if nthOpt (splitOn CHR '' '' (current_fen g)) 1 = Some ''w''
                 then white_user_id g else black_user_id g)"
  shows "submitMove elo db gid uid sanRaw = (Json 409 ''Not your turn'', db)
         \<and> games (snd (submitMove elo db gid uid sanRaw)) gid = Some g"
  using assms by (auto simp: submitMove_def Let_def)

theorem submitMove_not_your_turn_witness:
  "submitMove (\<lambda>a b c. 0) (newStore ''g1'' (newGame ''alice'' ''bob'')) ''g1'' ''bob'' ''e5''
     = (Json 409 ''Not your turn'', newStore ''g1'' (newGame ''alice'' ''bob''))
   \<and> games (snd (submitMove (\<lambda>a b c. 0) (newStore ''g1'' (newGame ''alice'' ''bob'')) ''g1'' ''bob'' ''e5''))
        ''g1'' = Some (newGame ''alice'' ''bob'')"
proof -
  have turn: "nthOpt (splitOn CHR '' '' START_FEN) 1 = Some ''w''"
    by (simp add: START_FEN_def)
  show ?thesis
    using submitMove_not_your_turn [of "newStore ''g1'' (newGame ''alice'' ''bob'')" "''g1''"
        "newGame ''alice'' ''bob''" "''bob''" "\<lambda>a b c. 0" "''e5''"] turn
    by (simp add: newStore_def newGame_def)
qed

text \<open>
  With one request at a time, the two earliest rows \<open>a\<close> and \<open>b\<close> of the queue are paired,
  the one with the higher snapshot is White, and \<open>a\<close> is White on a tie.
\<close>

lemma tryMatch_colors:
  "tryMatch (a # b # rest) =
     (if user_id a = user_id b then None
      else if rating_snapshot a \<ge> rating_snapshot b then Some (user_id a, user_id b)
      else Some (user_id b, user_id a))"
  by (auto simp: tryMatch_def tryMatchReads_def ratingOf_def Let_def)

text \<open>
  C8 (colours of a pairing). The entry with the strictly higher snapshot should be White.
  In \<open>tryMatch\<close> the users come from the second (locking) read and the snapshots, by
  position, from the first. When the queue changes in between (here \<open>u1\<close> has left and
  \<open>u3\<close> has joined), the users paired are \<open>u2\<close> (snapshot 1000) and \<open>u3\<close> (snapshot 2000),
  and \<open>u2\<close> is White: the colours follow the snapshots of \<open>u1\<close> and \<open>u2\<close>, so the entry
  with the lower snapshot gets White.
\<close>

theorem tryMatch_lower_rated_white:
  "tryMatchReads
     [\<lparr>user_id = ''u1'', rating_snapshot = 1500\<rparr>, \<lparr>user_id = ''u2'', rating_snapshot = 1000\<rparr>]
     [\<lparr>user_id = ''u2'', rating_snapshot = 1000\<rparr>, \<lparr>user_id = ''u3'', rating_snapshot = 2000\<rparr>]
   = Some (''u2'', ''u3'')"
  by (simp add: tryMatchReads_def ratingOf_def)

text \<open>
  C10 (positions without a king). When no square of the board holds the king of a
  colour, \<open>findKing\<close> returns \<open>null\<close> and \<open>inCheck\<close> is false for that colour. Generating
  the legal moves and applying each of them then returns (nothing is thrown), given
  that the castling field is a string.
\<close>

theorem no_king_no_check:
  assumes "\<forall>q\<in>set allSquares. rd (board s) (snd q) (fst q)
             \<noteq> Some (if color = Some ''w'' then CHR ''K'' else CHR ''k'')"
  shows "findKing (board s) color = None \<and> \<not> inCheck s color
         \<and> (castling s \<noteq> None \<longrightarrow>
              (\<exists>ms. allLegalMoves s = Inr ms \<and> (\<forall>m\<in>set ms. \<exists>n. applyMove s m = Inr n)))"
proof -
  have fk: "findKing (board s) color = None"
    using assms by (auto simp: findKing_def Let_def find_None_iff)
  then have nc: "\<not> inCheck s color" by (simp add: inCheck_def)
  have tot: "\<exists>ms. allLegalMoves s = Inr ms \<and> (\<forall>m\<in>set ms. \<exists>n. applyMove s m = Inr n)"
    if "castling s \<noteq> None"
  proof -
    from that obtain c where c: "castling s = Some c" by auto
    from legalLoop_total [OF c] obtain ms where ms: "allLegalMoves s = Inr ms"
      unfolding allLegalMoves_def by blast
    have "\<exists>n. applyMove s m = Inr n" if "m \<in> set ms" for m
      using legalLoop_sound [of s allSquares ms m] ms that
      by (auto simp: allLegalMoves_def)
    with ms show ?thesis by blast
  qed
  from fk nc tot show ?thesis by blast
qed

theorem no_king_no_check_witness:
  "list_all (\<lambda>q. rd (board loneKing) (snd q) (fst q) \<noteq> Some CHR ''k'') allSquares
   \<and> findKing (board loneKing) (Some ''b'') = None \<and> \<not> inCheck loneKing (Some ''b'')
   \<and> (\<exists>ms. allLegalMoves loneKing = Inr ms)"
proof -
  have h: "list_all (\<lambda>q. rd (board loneKing) (snd q) (fst q) \<noteq> Some CHR ''k'') allSquares"
    by code_simp
  then have h': "\<forall>q\<in>set allSquares. rd (board loneKing) (snd q) (fst q)
             \<noteq> Some (if Some ''b'' = Some ''w'' then CHR ''K'' else CHR ''k'')"
    by (simp add: list_all_iff)
  have c: "castling loneKing \<noteq> None" by (simp add: loneKing_def kingsOnly_def)
  from no_king_no_check [OF h'] c h show ?thesis by blast
qed

subsection \<open>Reading and writing arrays\<close>

lemma nthOpt_eq:
  "nthOpt xs i = (if 0 \<le> i \<and> i < int (length xs) then Some (xs ! nat i) else None)"
proof (induction xs arbitrary: i)
  case Nil
  then show ?case by simp
next
  case (Cons x xs)
  show ?case
  proof (cases "i = 0")
    case True
    then show ?thesis by simp
  next
    case False
    have "(x # xs) ! nat i = xs ! nat (i - 1)" if "0 \<le> i"
      using that False by (cases "nat i") (auto simp: nat_diff_distrib)
    with False Cons [of "i - 1"] show ?thesis by auto
  qed
qed

lemma nthOpt_None_iff: "nthOpt xs i = None \<longleftrightarrow> i < 0 \<or> int (length xs) \<le> i"
  by (auto simp: nthOpt_eq)

lemma splitOn_not_Nil [simp]: "splitOn c s \<noteq> []"
  by (induction s) (auto split: list.splits)

lemma parseRanks_returns:
  "(\<exists>b'. parseRanks rs rows b = Inr b') \<longleftrightarrow> (\<forall>r\<in>set rs. nthOpt rows r \<noteq> None)"
  by (induction rs arbitrary: b) (auto split: option.splits)

lemma parseRanks_throws:
  "parseRanks rs rows b = Inl TypeError \<longleftrightarrow> (\<exists>r\<in>set rs. nthOpt rows r = None)"
proof -
  have "parseRanks rs rows b = Inl TypeError \<longleftrightarrow> \<not> (\<exists>b'. parseRanks rs rows b = Inr b')"
    by (cases "parseRanks rs rows b") (auto intro: jsError.exhaust)
  then show ?thesis by (simp add: parseRanks_returns)
qed

lemma missing_rank: "(\<exists>r\<in>set [0..7]. nthOpt rows r = None) \<longleftrightarrow> length rows < 8"
proof
  assume "\<exists>r\<in>set [0..7]. nthOpt rows r = None"
  then show "length rows < 8" by (auto simp: nthOpt_None_iff)
next
  assume "length rows < 8"
  then have "7 \<in> set [0..7]" "nthOpt rows 7 = None" by (auto simp: nthOpt_None_iff)
  then show "\<exists>r\<in>set [0..7]. nthOpt rows r = None" by blast
qed

text \<open>
  C6 (malformed position texts). As stated the claim fails: \<open>parseFen\<close> has no
  \<open>InvalidFormat\<close> result. A text with an illegal piece letter, or with one field only,
  or with nine pieces in a rank, yields a position; a text with two ranks throws.
\<close>

theorem parseFen_malformed_counterexample:
  "parseFen ''x7/8/8/8/8/8/8/8 w - - 0 1''
     = Inr \<lparr> board = [emptyRow, emptyRow, emptyRow, emptyRow, emptyRow, emptyRow, emptyRow,
                       emptyRow[0 := Some CHR ''x'']],
             activeColor = Some ''w'', castling = Some [], enPassant = Some ''-'',
             halfmove = Num 0, fullmove = Num 1 \<rparr>
   \<and> parseFen ''8/8/8/8/8/8/8/8''
     = Inr \<lparr> board = replicate 8 emptyRow,
             activeColor = None, castling = None, enPassant = None,
             halfmove = NaN, fullmove = NaN \<rparr>
   \<and> parseFen ''ppppppppp/8/8/8/8/8/8/8 w - - 0 1''
     = Inr \<lparr> board = [emptyRow, emptyRow, emptyRow, emptyRow, emptyRow, emptyRow, emptyRow,
                       replicate 9 (Some CHR ''p'')],
             activeColor = Some ''w'', castling = Some [], enPassant = Some ''-'',
             halfmove = Num 0, fullmove = Num 1 \<rparr>
   \<and> parseFen ''8/8 w - - 0 1'' = Inl TypeError"
  by code_simp

text \<open>
  C6, amended. For every text, \<open>parseFen\<close> throws a \<open>TypeError\<close> exactly when the board
  field (the text before the first space) has fewer than eight ranks separated by
  \<open>/\<close>, and returns a position for every other text, whatever its fields hold.
\<close>

theorem parseFen_throws_or_returns:
  "(parseFen fen = Inl TypeError
      \<longleftrightarrow> length (splitOn CHR ''/'' (hd (splitOn CHR '' '' fen))) < 8)
   \<and> ((\<exists>s. parseFen fen = Inr s)
      \<longleftrightarrow> 8 \<le> length (splitOn CHR ''/'' (hd (splitOn CHR '' '' fen))))"
proof -
  obtain f fs where fields: "splitOn CHR '' '' fen = f # fs"
    by (cases "splitOn CHR '' '' fen") auto
  let ?ranks = "parseRanks [0..7] (splitOn CHR ''/'' f) (replicate 8 (replicate 8 None))"
  have thr: "parseFen fen = Inl TypeError \<longleftrightarrow> ?ranks = Inl TypeError"
    using fields by (cases ?ranks) (auto simp: parseFen_def Let_def)
  have ret: "(\<exists>s. parseFen fen = Inr s) \<longleftrightarrow> (\<exists>b. ?ranks = Inr b)"
    using fields by (cases ?ranks) (auto simp: parseFen_def Let_def)
  from thr have "parseFen fen = Inl TypeError \<longleftrightarrow> length (splitOn CHR ''/'' f) < 8"
    by (simp only: parseRanks_throws missing_rank)
  moreover from ret have "(\<exists>s. parseFen fen = Inr s) \<longleftrightarrow> 8 \<le> length (splitOn CHR ''/'' f)"
    using missing_rank [of "splitOn CHR ''/'' f"]
    by (simp only: parseRanks_returns) (metis not_less)
  ultimately show ?thesis using fields by simp
qed

subsection \<open>Assignments to the board\<close>

lemma replaceAt_length [simp]: "length (replaceAt xs i v) = length xs"
  by (induction xs arbitrary: i) auto

lemma wr_length [simp]: "length (wr b yy xx v) = length b"
  by (simp add: wr_def split: option.splits)

lemma nthOpt_replaceAt_same:
  "0 \<le> i \<Longrightarrow> i < int (length xs) \<Longrightarrow> nthOpt (replaceAt xs i v) i = Some v"
  by (induction xs arbitrary: i) auto

lemma nthOpt_setAt_same: "0 \<le> i \<Longrightarrow> nthOpt (setAt xs i v) i = Some v"
proof (induction xs arbitrary: i)
  case Nil
  then show ?case by (simp add: nthOpt_eq nth_append)
next
  case (Cons x xs)
  then show ?case by auto
qed

lemma rd_wr_same:
  assumes "0 \<le> yy" "yy < int (length b)" "0 \<le> xx"
  shows "rd (wr b yy xx v) yy xx = v"
proof -
  from assms obtain row where row: "nthOpt b yy = Some row" by (auto simp: nthOpt_eq)
  with assms show ?thesis
    by (simp add: rd_def wr_def nthOpt_replaceAt_same jsSet_def nthOpt_setAt_same)
qed

lemma placeRow_length [simp]: "length (placeRow cs r f b) = length b"
  by (induction cs r f b rule: placeRow.induct) auto

lemma parseRanks_length: "parseRanks rs rows b = Inr b' \<Longrightarrow> length b' = length b"
  by (induction rs arbitrary: b) (auto split: option.splits)

lemma parseFen_rows: "parseFen fen = Inr s \<Longrightarrow> length (board s) = 8"
  by (auto simp: parseFen_def Let_def andThen_Inr_iff split: option.splits
      dest: parseRanks_length)

lemma applyMove_Inr_eq:
  assumes "applyMove s m = Inr n"
  shows "\<exists>pc c7. rd (board s) (snd (mfrom m)) (fst (mfrom m)) = Some pc
     \<and> castlingAfter s m (toUpperCase pc) = Inr c7
     \<and> n = \<lparr> board = boardAfter s m,
             activeColor = Some (if activeColor s = Some ''w'' then ''b'' else ''w''),
             castling = c7,
             enPassant = (if mpawnDouble m
                          then Some (idxToSq (fst (mfrom m))
                                 (snd (mfrom m) + (if activeColor s = Some ''w'' then 1 else -1)))
                          else Some ''-''),
             halfmove = (if toUpperCase pc = CHR ''P'' \<or> mcapture m then Num 0
                         else jsInc (halfmove s)),
             fullmove = (if activeColor s = Some ''w'' then fullmove s
                         else jsInc (fullmove s)) \<rparr>"
  using assms
  by (auto simp: applyMove_def Let_def andThen_Inr_iff split: option.splits)

lemma applyMove_board:
  assumes "applyMove s m = Inr n"
  shows "\<exists>b3. length b3 = length (board s)
     \<and> board n = wr b3 (snd (mto m)) (fst (mto m))
         (case mpromotion m of
            Some pr \<Rightarrow> Some (if activeColor s = Some ''w'' then pr else toLowerCase pr)
          | None \<Rightarrow> rd (board s) (snd (mfrom m)) (fst (mfrom m)))"
proof -
  let ?w = "activeColor s = Some ''w''"
  let ?b1 = "wr (board s) (snd (mfrom m)) (fst (mfrom m)) None"
  let ?b2 = "if menPassant m then wr ?b1 (snd (mto m) + (if ?w then -1 else 1)) (fst (mto m)) None else ?b1"
  let ?rank = "if ?w then 0 else 7 :: int"
  let ?b3 = "if mcastle m \<noteq> None then
                  (if fst (mto m) = 6 then wr (wr ?b2 ?rank 7 None) ?rank 5 (rd ?b2 ?rank 7)
                   else if fst (mto m) = 2 then wr (wr ?b2 ?rank 0 None) ?rank 3 (rd ?b2 ?rank 0)
                   else ?b2)
                else ?b2"
  have len: "length ?b3 = length (board s)" by simp
  from applyMove_Inr_eq [OF assms] have "board n = boardAfter s m" by auto
  then have "board n = wr ?b3 (snd (mto m)) (fst (mto m))
         (case mpromotion m of
            Some pr \<Rightarrow> Some (if ?w then pr else toLowerCase pr)
          | None \<Rightarrow> rd (board s) (snd (mfrom m)) (fst (mfrom m)))"
    by (simp add: boardAfter_def Let_def)
  with len show ?thesis by blast
qed

subsection \<open>Moves of the candidate list\<close>

lemma candidatesOf_origin:
  assumes "m \<in> set (candidatesOf s pr legal)"
  shows "\<exists>m0\<in>set legal. m = m0 \<or> (\<exists>c. m = m0\<lparr>mpromotion := Some c\<rparr>)"
  using assms
  by (cases pr) (auto simp: candidatesOf_def Let_def split: if_splits)

lemma candidatesOf_promotion:
  assumes "m \<in> set (candidatesOf s (MoveSan p) legal)" and "ppromotion p = Some c"
  shows "mpromotion m = Some c \<and> mto m = pto p"
  using assms
  by (auto simp: candidatesOf_def Let_def split: if_splits)

lemma candidate_applies:
  assumes "allLegalMoves s = Inr legal" and "m \<in> set (candidatesOf s pr legal)"
  shows "\<exists>n. applyMove s m = Inr n"
proof -
  from candidatesOf_origin [OF assms(2)] obtain m0 where m0: "m0 \<in> set legal"
    and m: "m = m0 \<or> (\<exists>c. m = m0\<lparr>mpromotion := Some c\<rparr>)" by blast
  from legalLoop_sound [of s allSquares legal m0] assms(1) m0
  obtain n0 where "applyMove s m0 = Inr n0" by (auto simp: allLegalMoves_def)
  with m applyMove_promotion_total [of s m0 n0] show ?thesis by auto
qed

lemma indexOf_FILES: "isFile f \<Longrightarrow> 0 \<le> indexOf FILES (Some f) \<and> indexOf FILES (Some f) < 8"
  by (auto simp: isFile_def FILES_def)

lemma indexOf_RANKS: "isRank r \<Longrightarrow> 0 \<le> indexOf RANKS (Some r) \<and> indexOf RANKS (Some r) < 8"
  by (auto simp: isRank_def RANKS_def)

lemma destMatch_Some:
  assumes "destMatch t = Some d"
  shows "\<exists>f r. d = [f, r] \<and> isFile f \<and> isRank r"
  using assms by (auto simp: destMatch_def split: list.splits if_splits)

lemma destMatch_onBoard:
  assumes "destMatch t = Some d"
  shows "onBoard (fst (sqToIdx d)) (snd (sqToIdx d))"
proof -
  from destMatch_Some [OF assms] obtain f r where "d = [f, r]" "isFile f" "isRank r" by blast
  with indexOf_FILES [of f] indexOf_RANKS [of r] show ?thesis
    by (simp add: sqToIdx_def onBoard_def)
qed

lemma parseSan_to:
  assumes "parseSan s tok = Some (MoveSan p)"
  shows "\<exists>t d. destMatch t = Some d \<and> pto p = sqToIdx d"
proof -
  let ?t = "trim (filter (\<lambda>c. c \<noteq> CHR ''+'' \<and> c \<noteq> CHR ''#'') tok)"
  from assms have nc: "\<not> (?t = ''O-O'' \<or> ?t = ''0-0'')" "\<not> (?t = ''O-O-O'' \<or> ?t = ''0-0-0'')"
    by (auto simp: parseSan_def Let_def)
  show ?thesis
  proof (cases "destMatch (stripPromotions ?t)")
    case None
    with assms nc show ?thesis by (simp add: parseSan_def Let_def)
  next
    case (Some d)
    with assms nc have "pto p = sqToIdx d"
      by (clarsimp simp: parseSan_def Let_def)
    with Some show ?thesis by blast
  qed
qed

lemma parseSan_onBoard:
  assumes "parseSan s tok = Some (MoveSan p)"
  shows "onBoard (fst (pto p)) (snd (pto p))"
  using parseSan_to [OF assms] destMatch_onBoard by auto

subsection \<open>Evaluations of \<open>validateAndApplySanMove\<close>\<close>

lemma knights_Nf3:
  "validateAndApplySanMove ''4k3/8/8/8/8/8/3N4/4K1N1 w - - 0 1'' ''Nf3''
     = Inr (Rejected ''Ambiguous move'')"
  by code_simp

lemma knights_Ngf3:
  "validateAndApplySanMove ''4k3/8/8/8/8/8/3N4/4K1N1 w - - 0 1'' ''Ngf3''
     = Inr (Accepted ''4k3/8/8/8/8/5N2/3N4/4K3 b - - 1 1''
             \<lparr>check = False, checkmate = False, stalemate = False\<rparr>)"
  by code_simp

lemma knights_Ndf3:
  "validateAndApplySanMove ''4k3/8/8/8/8/8/3N4/4K1N1 w - - 0 1'' ''Ndf3''
     = Inr (Accepted ''4k3/8/8/8/8/5N2/8/4K1N1 b - - 1 1''
             \<lparr>check = False, checkmate = False, stalemate = False\<rparr>)"
  by code_simp

lemma promote_king:
  "validateAndApplySanMove ''4k3/8/8/8/8/8/8/4K3 w - - 0 1'' ''Ke2=Q''
     = Inr (Accepted ''4k3/8/8/8/8/8/4Q3/8 b - - 1 1''
             \<lparr>check = True, checkmate = False, stalemate = False\<rparr>)"
  by code_simp

lemma promote_white_e5:
  "validateAndApplySanMove ''4k3/8/8/8/4P3/8/8/4K3 w - - 0 1'' ''e5=Q''
     = Inr (Accepted ''4k3/8/8/4Q3/8/8/8/4K3 b - - 0 1''
             \<lparr>check = True, checkmate = False, stalemate = False\<rparr>)"
  by code_simp

lemma promote_black_e5:
  "validateAndApplySanMove ''4k3/4p3/8/8/8/8/8/4K3 b - - 0 1'' ''e5=Q''
     = Inr (Accepted ''4k3/8/8/4q3/8/8/8/4K3 w - e6 0 2''
             \<lparr>check = True, checkmate = False, stalemate = False\<rparr>)"
  by code_simp

lemma conclude_cases:
  "conclude s [] = Inr (Rejected ''Illegal move'')"
  "2 \<le> length cs \<Longrightarrow> conclude s cs = Inr (Rejected ''Ambiguous move'')"
  "conclude s [m] = andThen (applyMove s m) (\<lambda>n. andThen (allLegalMoves n) (\<lambda>oppLegal.
      Inr (Accepted (toFen n)
            \<lparr> check = inCheck n (activeColor n),
              checkmate = (inCheck n (activeColor n) \<and> oppLegal = []),
              stalemate = (\<not> inCheck n (activeColor n) \<and> oppLegal = []) \<rparr>)))"
  by (auto simp: conclude_def Let_def)

lemma knights_parse:
  "\<exists>s. parseFen ''4k3/8/8/8/8/8/3N4/4K1N1 w - - 0 1'' = Inr s"
proof -
  have "case parseFen ''4k3/8/8/8/8/8/3N4/4K1N1 w - - 0 1'' of Inl e \<Rightarrow> False | Inr s \<Rightarrow> True"
    by code_simp
  then show ?thesis
    by (cases "parseFen ''4k3/8/8/8/8/8/3N4/4K1N1 w - - 0 1''") auto
qed

text \<open>
  C5 (exactly one candidate). As stated the claim fails in its last part: no knight on
  the b-file reaches f3. With knights on d2 and g1, \<open>Nf3\<close> is ambiguous and \<open>Nbf3\<close> is
  answered \<open>Illegal move\<close>.
\<close>

theorem Nbf3_counterexample:
  "validateAndApplySanMove ''4k3/8/8/8/8/8/3N4/4K1N1 w - - 0 1'' ''Nf3''
     = Inr (Rejected ''Ambiguous move'')
   \<and> validateAndApplySanMove ''4k3/8/8/8/8/8/3N4/4K1N1 w - - 0 1'' ''Nbf3''
     = Inr (Rejected ''Illegal move'')"
  by code_simp

text \<open>
  C5, amended. For a position text that parses, a token that parses and the list of
  legal moves: no candidate left after the filters gives \<open>Illegal move\<close>, two or more
  give \<open>Ambiguous move\<close>, and a single candidate is applied (the answer is then never a
  rejection, and a move is accepted only when the candidate was single). With knights
  on d2 and g1, \<open>Nf3\<close> is ambiguous, and \<open>Ngf3\<close> and \<open>Ndf3\<close> each resolve to one move.
\<close>

theorem resolver_needs_one_candidate:
  assumes "parseFen fen = Inr s" and "parseSan s tok = Some pr"
    and "allLegalMoves s = Inr legal"
  shows "(candidatesOf s pr legal = []
            \<longrightarrow> validateAndApplySanMove fen tok = Inr (Rejected ''Illegal move''))
       \<and> (2 \<le> length (candidatesOf s pr legal)
            \<longrightarrow> validateAndApplySanMove fen tok = Inr (Rejected ''Ambiguous move''))
       \<and> (\<forall>m. candidatesOf s pr legal = [m]
            \<longrightarrow> (\<exists>n. applyMove s m = Inr n
                   \<and> validateAndApplySanMove fen tok
                       = andThen (allLegalMoves n) (\<lambda>oppLegal.
                           Inr (Accepted (toFen n)
                                 \<lparr> check = inCheck n (activeColor n),
                                   checkmate = (inCheck n (activeColor n) \<and> oppLegal = []),
                                   stalemate = (\<not> inCheck n (activeColor n) \<and> oppLegal = []) \<rparr>))))
       \<and> (\<forall>f st. validateAndApplySanMove fen tok = Inr (Accepted f st)
            \<longrightarrow> length (candidatesOf s pr legal) = 1)
       \<and> validateAndApplySanMove ''4k3/8/8/8/8/8/3N4/4K1N1 w - - 0 1'' ''Nf3''
            = Inr (Rejected ''Ambiguous move'')
       \<and> validateAndApplySanMove ''4k3/8/8/8/8/8/3N4/4K1N1 w - - 0 1'' ''Ngf3''
            = Inr (Accepted ''4k3/8/8/8/8/5N2/3N4/4K3 b - - 1 1''
                    \<lparr>check = False, checkmate = False, stalemate = False\<rparr>)
       \<and> validateAndApplySanMove ''4k3/8/8/8/8/8/3N4/4K1N1 w - - 0 1'' ''Ndf3''
            = Inr (Accepted ''4k3/8/8/8/8/5N2/8/4K1N1 b - - 1 1''
                    \<lparr>check = False, checkmate = False, stalemate = False\<rparr>)"
proof -
  let ?cs = "candidatesOf s pr legal"
  have v: "validateAndApplySanMove fen tok = conclude s ?cs"
    using assms by (simp add: validateAndApplySanMove_def)
  have none: "?cs = [] \<longrightarrow> validateAndApplySanMove fen tok = Inr (Rejected ''Illegal move'')"
    using v by (simp add: conclude_cases)
  have many: "2 \<le> length ?cs
      \<longrightarrow> validateAndApplySanMove fen tok = Inr (Rejected ''Ambiguous move'')"
    using v by (simp add: conclude_cases)
  have one: "\<exists>n. applyMove s m = Inr n
      \<and> validateAndApplySanMove fen tok
           = andThen (allLegalMoves n) (\<lambda>oppLegal.
               Inr (Accepted (toFen n)
                     \<lparr> check = inCheck n (activeColor n),
                       checkmate = (inCheck n (activeColor n) \<and> oppLegal = []),
                       stalemate = (\<not> inCheck n (activeColor n) \<and> oppLegal = []) \<rparr>))"
    if "?cs = [m]" for m
  proof -
    from that have "m \<in> set ?cs" by simp
    from candidate_applies [OF assms(3) this] obtain n where n: "applyMove s m = Inr n" ..
    with v that show ?thesis by (simp add: conclude_cases)
  qed
  have only: "length ?cs = 1" if "validateAndApplySanMove fen tok = Inr (Accepted f st)" for f st
    using that v by (auto simp: conclude_def split: if_splits)
  from none many one only knights_Nf3 knights_Ngf3 knights_Ndf3 show ?thesis by blast
qed

theorem resolver_needs_one_candidate_witness:
  "(\<exists>s pr legal. parseFen ''4k3/8/8/8/8/8/3N4/4K1N1 w - - 0 1'' = Inr s
      \<and> parseSan s ''Nf3'' = Some pr \<and> allLegalMoves s = Inr legal
      \<and> 2 \<le> length (candidatesOf s pr legal))
   \<and> validateAndApplySanMove ''4k3/8/8/8/8/8/3N4/4K1N1 w - - 0 1'' ''Nf3''
        = Inr (Rejected ''Ambiguous move'')"
proof -
  obtain s where s: "parseFen ''4k3/8/8/8/8/8/3N4/4K1N1 w - - 0 1'' = Inr s"
    using knights_parse ..
  have c: "castling s \<noteq> None"
    using s by (auto simp: parseFen_def Let_def andThen_Inr_iff split: option.splits if_splits)
  then obtain legal where legal: "allLegalMoves s = Inr legal"
    using legalLoop_total [of s] by (auto simp: allLegalMoves_def)
  obtain pr where pr: "parseSan s ''Nf3'' = Some pr"
    by (simp add: parseSan_def Let_def trim_def isSpace_def destMatch_def isFile_def isRank_def)
  have two: "2 \<le> length (candidatesOf s pr legal)"
  proof (rule ccontr)
    assume "\<not> 2 \<le> length (candidatesOf s pr legal)"
    then consider "candidatesOf s pr legal = []" | m where "candidatesOf s pr legal = [m]"
      by (cases "candidatesOf s pr legal"; cases "tl (candidatesOf s pr legal)") auto
    then show False
    proof cases
      case 1
      with resolver_needs_one_candidate [OF s pr legal] knights_Nf3 show False by simp
    next
      case 2
      with resolver_needs_one_candidate [OF s pr legal] obtain n where
        "validateAndApplySanMove ''4k3/8/8/8/8/8/3N4/4K1N1 w - - 0 1'' ''Nf3''
           = andThen (allLegalMoves n) (\<lambda>oppLegal.
               Inr (Accepted (toFen n)
                     \<lparr> check = inCheck n (activeColor n),
                       checkmate = (inCheck n (activeColor n) \<and> oppLegal = []),
                       stalemate = (\<not> inCheck n (activeColor n) \<and> oppLegal = []) \<rparr>))"
        by blast
      with knights_Nf3 show False by (cases "allLegalMoves n") auto
    qed
  qed
  from resolver_needs_one_candidate [OF s pr legal] two s pr legal show ?thesis by blast
qed

lemma kingsOnly_parse: "parseFen ''4k3/8/8/8/8/8/8/4K3 w - - 0 1'' = Inr kingsOnly"
  by code_simp

lemma kingsOnly_token:
  "parseSan kingsOnly ''Ke2=Q''
     = Some (MoveSan \<lparr> pieceLetter = CHR ''K'', pto = (4, 1), pcapture = False,
                        ppromotion = Some CHR ''Q'', disFile = None, disRank = None,
                        pawnFromFile = None \<rparr>)"
  by code_simp

lemma kingsOnly_candidates:
  "candidatesOf kingsOnly
     (MoveSan \<lparr> pieceLetter = CHR ''K'', pto = (4, 1), pcapture = False,
                ppromotion = Some CHR ''Q'', disFile = None, disRank = None,
                pawnFromFile = None \<rparr>)
     [kingStep\<lparr>mto := (3, 0)\<rparr>, kingStep\<lparr>mto := (3, 1)\<rparr>, kingStep,
      kingStep\<lparr>mto := (5, 0)\<rparr>, kingStep\<lparr>mto := (5, 1)\<rparr>]
   = [kingStep\<lparr>mpromotion := Some CHR ''Q''\<rparr>]"
  by code_simp

text \<open>
  C9 (promotion suffix on any move). When a token with a promotion suffix resolves to
  one legal move, that move carries the promotion letter, it can be applied, and in the
  resulting position the destination square holds the promotion letter in the mover's
  colour (the letter itself for White, its lower case otherwise), whatever piece moved
  and whatever the rank. So \<open>Ke2=Q\<close> turns the king into a queen on e2, and \<open>e5=Q\<close> puts a
  queen on e5 (\<open>Q\<close> for White, \<open>q\<close> for Black).
\<close>

theorem promotion_suffix_always_placed:
  assumes "parseFen fen = Inr s" and "parseSan s tok = Some (MoveSan p)"
    and "ppromotion p = Some c" and "allLegalMoves s = Inr legal"
    and "candidatesOf s (MoveSan p) legal = [m]"
  shows "mpromotion m = Some c
       \<and> (\<exists>n. applyMove s m = Inr n
              \<and> rd (board n) (snd (pto p)) (fst (pto p))
                   = Some (if activeColor s = Some ''w'' then c else toLowerCase c)
              \<and> (\<forall>f st. validateAndApplySanMove fen tok = Inr (Accepted f st) \<longrightarrow> f = toFen n))
       \<and> validateAndApplySanMove ''4k3/8/8/8/8/8/8/4K3 w - - 0 1'' ''Ke2=Q''
            = Inr (Accepted ''4k3/8/8/8/8/8/4Q3/8 b - - 1 1''
                    \<lparr>check = True, checkmate = False, stalemate = False\<rparr>)
       \<and> validateAndApplySanMove ''4k3/8/8/8/4P3/8/8/4K3 w - - 0 1'' ''e5=Q''
            = Inr (Accepted ''4k3/8/8/4Q3/8/8/8/4K3 b - - 0 1''
                    \<lparr>check = True, checkmate = False, stalemate = False\<rparr>)
       \<and> validateAndApplySanMove ''4k3/4p3/8/8/8/8/8/4K3 b - - 0 1'' ''e5=Q''
            = Inr (Accepted ''4k3/8/8/4q3/8/8/8/4K3 w - e6 0 2''
                    \<lparr>check = True, checkmate = False, stalemate = False\<rparr>)"
proof -
  have mem: "m \<in> set (candidatesOf s (MoveSan p) legal)" using assms(5) by simp
  from candidatesOf_promotion [OF mem assms(3)]
  have pm: "mpromotion m = Some c" and to: "mto m = pto p" by auto
  from candidate_applies [OF assms(4) mem] obtain n where n: "applyMove s m = Inr n" ..
  from applyMove_board [OF n] pm to obtain b3 where
    len: "length b3 = length (board s)" and
    bn: "board n = wr b3 (snd (pto p)) (fst (pto p))
           (Some (if activeColor s = Some ''w'' then c else toLowerCase c))"
    by auto
  from parseSan_onBoard [OF assms(2)] parseFen_rows [OF assms(1)] len
  have "0 \<le> snd (pto p)" "snd (pto p) < int (length b3)" "0 \<le> fst (pto p)"
    by (auto simp: onBoard_def)
  then have sq: "rd (board n) (snd (pto p)) (fst (pto p))
           = Some (if activeColor s = Some ''w'' then c else toLowerCase c)"
    unfolding bn by (rule rd_wr_same)
  have v: "validateAndApplySanMove fen tok = conclude s [m]"
    using assms by (simp add: validateAndApplySanMove_def)
  have fen: "f = toFen n" if "validateAndApplySanMove fen tok = Inr (Accepted f st)" for f st
    using that v n by (cases "allLegalMoves n") (auto simp: conclude_cases)
  from pm n sq fen promote_king promote_white_e5 promote_black_e5 show ?thesis by blast
qed

theorem promotion_suffix_always_placed_witness:
  "\<exists>n. applyMove kingsOnly (kingStep\<lparr>mpromotion := Some CHR ''Q''\<rparr>) = Inr n
       \<and> rd (board n) 1 4 = Some CHR ''Q''"
proof -
  have p: "ppromotion \<lparr> pieceLetter = CHR ''K'', pto = (4, 1), pcapture = False,
                ppromotion = Some CHR ''Q'', disFile = None, disRank = None,
                pawnFromFile = None \<rparr> = Some CHR ''Q''" by simp
  have w: "activeColor kingsOnly = Some ''w''" by (simp add: kingsOnly_def)
  from promotion_suffix_always_placed
    [OF kingsOnly_parse kingsOnly_token p kingsOnly_legal kingsOnly_candidates] w
  show ?thesis by auto
qed

subsection \<open>The fool's mate\<close>

lemma mate_ply1:
  "validateAndApplySanMove START_FEN ''f3''
     = Inr (Accepted ''rnbqkbnr/pppppppp/8/8/8/5P2/PPPPP1PP/RNBQKBNR b KQkq - 0 1''
             \<lparr>check = False, checkmate = False, stalemate = False\<rparr>)"
  by code_simp

lemma mate_ply2:
  "validateAndApplySanMove ''rnbqkbnr/pppppppp/8/8/8/5P2/PPPPP1PP/RNBQKBNR b KQkq - 0 1'' ''e5''
     = Inr (Accepted ''rnbqkbnr/pppp1ppp/8/4p3/8/5P2/PPPPP1PP/RNBQKBNR w KQkq e6 0 2''
             \<lparr>check = False, checkmate = False, stalemate = False\<rparr>)"
  by code_simp

lemma mate_ply3:
  "validateAndApplySanMove ''rnbqkbnr/pppp1ppp/8/4p3/8/5P2/PPPPP1PP/RNBQKBNR w KQkq e6 0 2'' ''g4''
     = Inr (Accepted ''rnbqkbnr/pppp1ppp/8/4p3/6P1/5P2/PPPPP2P/RNBQKBNR b KQkq g3 0 2''
             \<lparr>check = False, checkmate = False, stalemate = False\<rparr>)"
  by code_simp

lemma mate_ply4:
  "validateAndApplySanMove ''rnbqkbnr/pppp1ppp/8/4p3/6P1/5P2/PPPPP2P/RNBQKBNR b KQkq g3 0 2'' ''Qh4''
     = Inr (Accepted ''rnb1kbnr/pppp1ppp/8/4p3/6Pq/5P2/PPPPP2P/RNBQKBNR w KQkq - 1 3''
             \<lparr>check = True, checkmate = True, stalemate = False\<rparr>)"
  by code_simp

lemma mate_position:
  "(case parseFen ''rnb1kbnr/pppp1ppp/8/4p3/6Pq/5P2/PPPPP2P/RNBQKBNR w KQkq - 1 3'' of
      Inl e \<Rightarrow> False
    | Inr s \<Rightarrow> activeColor s = Some ''w'' \<and> inCheck s (Some ''w'') \<and> allLegalMoves s = Inr [])"
  by code_simp

lemma finalizeRatings_games [simp]: "games (finalizeRatings elo db g draw) = games db"
  by (simp add: finalizeRatings_def Let_def)

lemma submitMove_commits:
  assumes "games db gid = Some g" and "gstatus g = ''active''"
    and "uid = (if nthOpt (splitOn CHR '' '' (current_fen g)) 1 = Some ''w''
                then white_user_id g else black_user_id g)"
    and "validateAndApplySanMove (current_fen g) tok = Inr (Accepted f st)"
  shows "games (snd (submitMove elo db gid uid tok)) gid
     = Some (g\<lparr> moves := Some ((case moves g of None \<Rightarrow> [] | Some ms \<Rightarrow> ms) @ [tok]),
                current_fen := f,
                gstatus := (if checkmate st \<or> stalemate st then ''finished'' else ''active''),
                winner_user_id := (if checkmate st then Some uid else None) \<rparr>)"
  using assms by (auto simp: submitMove_def commitMove_def Let_def)

text \<open>
  C3 (checkmate scenario). From the starting position the tokens \<open>f3\<close>, \<open>e5\<close>, \<open>g4\<close> and
  \<open>Qh4\<close> are accepted one after the other, and the last answer reports check and
  checkmate: in the final position White is to move, is in check and has no legal move.
  Submitted in turn by the two participants of a new game, the four moves leave the game
  finished with the black participant as the winner.
\<close>

theorem fools_mate_finishes_game:
  "validateAndApplySanMove START_FEN ''f3''
     = Inr (Accepted ''rnbqkbnr/pppppppp/8/8/8/5P2/PPPPP1PP/RNBQKBNR b KQkq - 0 1''
             \<lparr>check = False, checkmate = False, stalemate = False\<rparr>)
   \<and> validateAndApplySanMove ''rnbqkbnr/pppppppp/8/8/8/5P2/PPPPP1PP/RNBQKBNR b KQkq - 0 1'' ''e5''
     = Inr (Accepted ''rnbqkbnr/pppp1ppp/8/4p3/8/5P2/PPPPP1PP/RNBQKBNR w KQkq e6 0 2''
             \<lparr>check = False, checkmate = False, stalemate = False\<rparr>)
   \<and> validateAndApplySanMove ''rnbqkbnr/pppp1ppp/8/4p3/8/5P2/PPPPP1PP/RNBQKBNR w KQkq e6 0 2'' ''g4''
     = Inr (Accepted ''rnbqkbnr/pppp1ppp/8/4p3/6P1/5P2/PPPPP2P/RNBQKBNR b KQkq g3 0 2''
             \<lparr>check = False, checkmate = False, stalemate = False\<rparr>)
   \<and> validateAndApplySanMove ''rnbqkbnr/pppp1ppp/8/4p3/6P1/5P2/PPPPP2P/RNBQKBNR b KQkq g3 0 2'' ''Qh4''
     = Inr (Accepted ''rnb1kbnr/pppp1ppp/8/4p3/6Pq/5P2/PPPPP2P/RNBQKBNR w KQkq - 1 3''
             \<lparr>check = True, checkmate = True, stalemate = False\<rparr>)
   \<and> (case parseFen ''rnb1kbnr/pppp1ppp/8/4p3/6Pq/5P2/PPPPP2P/RNBQKBNR w KQkq - 1 3'' of
        Inl e \<Rightarrow> False
      | Inr s \<Rightarrow> activeColor s = Some ''w'' \<and> inCheck s (Some ''w'') \<and> allLegalMoves s = Inr [])
   \<and> games (submitAll elo (newStore gid (newGame white black)) gid
              [(white, ''f3''), (black, ''e5''), (white, ''g4''), (black, ''Qh4'')]) gid
     = Some \<lparr> white_user_id = white, black_user_id = black, gstatus = ''finished'',
              moves = Some [''f3'', ''e5'', ''g4'', ''Qh4''],
              current_fen = ''rnb1kbnr/pppp1ppp/8/4p3/6Pq/5P2/PPPPP2P/RNBQKBNR w KQkq - 1 3'',
              winner_user_id = Some black \<rparr>"
proof -
  let ?f1 = "''rnbqkbnr/pppppppp/8/8/8/5P2/PPPPP1PP/RNBQKBNR b KQkq - 0 1''"
  let ?f2 = "''rnbqkbnr/pppp1ppp/8/4p3/8/5P2/PPPPP1PP/RNBQKBNR w KQkq e6 0 2''"
  let ?f3 = "''rnbqkbnr/pppp1ppp/8/4p3/6P1/5P2/PPPPP2P/RNBQKBNR b KQkq g3 0 2''"
  let ?f4 = "''rnb1kbnr/pppp1ppp/8/4p3/6Pq/5P2/PPPPP2P/RNBQKBNR w KQkq - 1 3''"
  let ?g0 = "newGame white black"
  let ?d0 = "newStore gid ?g0"
  let ?g1 = "?g0\<lparr> moves := Some [''f3''], current_fen := ?f1 \<rparr>"
  let ?g2 = "?g0\<lparr> moves := Some [''f3'', ''e5''], current_fen := ?f2 \<rparr>"
  let ?g3 = "?g0\<lparr> moves := Some [''f3'', ''e5'', ''g4''], current_fen := ?f3 \<rparr>"
  let ?d1 = "snd (submitMove elo ?d0 gid white ''f3'')"
  let ?d2 = "snd (submitMove elo ?d1 gid black ''e5'')"
  let ?d3 = "snd (submitMove elo ?d2 gid white ''g4'')"
  let ?d4 = "snd (submitMove elo ?d3 gid black ''Qh4'')"
  have t0: "nthOpt (splitOn CHR '' '' START_FEN) 1 = Some ''w''" by (simp add: START_FEN_def)
  have t1: "nthOpt (splitOn CHR '' '' ?f1) 1 = Some ''b''" by simp
  have t2: "nthOpt (splitOn CHR '' '' ?f2) 1 = Some ''w''" by simp
  have t3: "nthOpt (splitOn CHR '' '' ?f3) 1 = Some ''b''" by simp
  have 1: "games ?d1 gid = Some ?g1"
    using submitMove_commits [of ?d0 gid ?g0 white "''f3''" ?f1 _ elo] mate_ply1 t0
    by (simp add: newStore_def newGame_def)
  have 2: "games ?d2 gid = Some ?g2"
    using submitMove_commits [OF 1, of black "''e5''" ?f2 _ elo] mate_ply2 t1
    by (simp add: newGame_def)
  have 3: "games ?d3 gid = Some ?g3"
    using submitMove_commits [OF 2, of white "''g4''" ?f3 _ elo] mate_ply3 t2
    by (simp add: newGame_def)
  have 4: "games ?d4 gid = Some \<lparr> white_user_id = white, black_user_id = black,
              gstatus = ''finished'', moves = Some [''f3'', ''e5'', ''g4'', ''Qh4''],
              current_fen = ?f4, winner_user_id = Some black \<rparr>"
    using submitMove_commits [OF 3, of black "''Qh4''" ?f4 _ elo] mate_ply4 t3
    by (simp add: newGame_def)
  have "submitAll elo ?d0 gid [(white, ''f3''), (black, ''e5''), (white, ''g4''), (black, ''Qh4'')] = ?d4"
    by (simp add: submitAll_def)
  with 4 mate_ply1 mate_ply2 mate_ply3 mate_ply4 mate_position show ?thesis by simp
qed

section \<open>The round trip of the position text\<close>

subsection \<open>Decimal numerals\<close>

lemma of_char_digitChar: "0 \<le> d \<Longrightarrow> d < 10 \<Longrightarrow> (of_char (digitChar d) :: int) = 48 + d"
  by (simp add: digitChar_def of_char_of)

lemma digitVal_digitChar [simp]: "0 \<le> d \<Longrightarrow> d < 10 \<Longrightarrow> digitVal (digitChar d) = d"
  by (simp add: digitVal_def of_char_digitChar)

lemma isDigit_digitChar [simp]: "0 \<le> d \<Longrightarrow> d < 10 \<Longrightarrow> isDigit (digitChar d)"
  by (simp add: isDigit_def of_char_digitChar)

lemma showDec_small: "n < 10 \<Longrightarrow> showDec n = [digitChar n]"
  by (subst showDec.simps) simp

lemma readDec_snoc [simp]: "readDec (xs @ [c]) = 10 * readDec xs + digitVal c"
  by (simp add: readDec_def)

lemma showDec_digits: "0 \<le> n \<Longrightarrow> list_all isDigit (showDec n)"
proof (induction n rule: showDec.induct)
  case (1 n)
  show ?case
  proof (cases "n < 10")
    case True
    with "1.prems" show ?thesis by (simp add: showDec_small)
  next
    case False
    with "1.prems" have "0 \<le> n div 10" "0 \<le> n mod 10" "n mod 10 < 10" by auto
    with "1.IH" [OF False] False show ?thesis
      by (subst showDec.simps) simp
  qed
qed

lemma showDec_not_Nil [simp]: "showDec n \<noteq> []"
  by (subst showDec.simps) simp

lemma readDec_showDec: "0 \<le> n \<Longrightarrow> readDec (showDec n) = n"
proof (induction n rule: showDec.induct)
  case (1 n)
  show ?case
  proof (cases "n < 10")
    case True
    with "1.prems" show ?thesis by (simp add: showDec_small readDec_def)
  next
    case False
    with "1.prems" have "0 \<le> n div 10" "0 \<le> n mod 10" "n mod 10 < 10" by auto
    with "1.IH" [OF False] False show ?thesis
      by (subst showDec.simps) simp
  qed
qed

lemma jsNumber_showNum: "0 \<le> n \<Longrightarrow> jsNumber (Some (showNum (Num n))) = Num n"
  by (simp add: jsNumber_def showNum_def showDec_digits readDec_showDec)

lemma isDigit_not_space: "isDigit c \<Longrightarrow> c \<noteq> CHR '' ''"
  by (auto simp: isDigit_def)

lemma isDigit_not_slash: "isDigit c \<Longrightarrow> c \<noteq> CHR ''/''"
  by (auto simp: isDigit_def)

lemma showNum_no_space: "0 \<le> n \<Longrightarrow> CHR '' '' \<notin> set (showNum (Num n))"
  using showDec_digits [of n] by (auto simp: showNum_def list_all_iff dest: isDigit_not_space)

subsection \<open>Splitting and joining\<close>

lemma splitOn_no_sep: "c \<notin> set s \<Longrightarrow> splitOn c s = [s]"
  by (induction s) auto

lemma splitOn_append: "c \<notin> set a \<Longrightarrow> splitOn c (a @ c # rest) = a # splitOn c rest"
  by (induction a) auto

lemma splitOn_join:
  "xs \<noteq> [] \<Longrightarrow> \<forall>x\<in>set xs. c \<notin> set x \<Longrightarrow> splitOn c (joinWith c xs) = xs"
proof (induction c xs rule: joinWith.induct)
  case (1 c)
  then show ?case by simp
next
  case (2 c x)
  then show ?case by (simp add: splitOn_no_sep)
next
  case (3 c x y ys)
  then show ?case by (simp add: splitOn_append)
qed

lemma set_joinWith: "set (joinWith c xs) \<subseteq> insert c (\<Union>x\<in>set xs. set x)"
  by (induction c xs rule: joinWith.induct) auto

subsection \<open>Arrays as lists\<close>

lemma replaceAt_eq: "0 \<le> i \<Longrightarrow> replaceAt xs i v = xs[nat i := v]"
proof (induction xs arbitrary: i)
  case Nil
  then show ?case by simp
next
  case (Cons x xs)
  show ?case
  proof (cases "i = 0")
    case True
    then show ?thesis by simp
  next
    case False
    with Cons.prems have "nat i = Suc (nat (i - 1))" by simp
    with False Cons.IH [of "i - 1"] Cons.prems show ?thesis by simp
  qed
qed

lemma setAt_eq: "0 \<le> i \<Longrightarrow> i < int (length xs) \<Longrightarrow> setAt xs i v = xs[nat i := v]"
proof (induction xs arbitrary: i)
  case Nil
  then show ?case by simp
next
  case (Cons x xs)
  show ?case
  proof (cases "i = 0")
    case True
    then show ?thesis by simp
  next
    case False
    with Cons.prems have "nat i = Suc (nat (i - 1))" by simp
    with False Cons.IH [of "i - 1"] Cons.prems show ?thesis by simp
  qed
qed

lemma jsSet_eq: "0 \<le> i \<Longrightarrow> i < int (length xs) \<Longrightarrow> jsSet xs i v = xs[nat i := v]"
  by (simp add: jsSet_def setAt_eq)

lemma rd_eq:
  "0 \<le> yy \<Longrightarrow> yy < int (length b) \<Longrightarrow> 0 \<le> xx \<Longrightarrow> xx < int (length (b ! nat yy))
     \<Longrightarrow> rd b yy xx = b ! nat yy ! nat xx"
  by (simp add: rd_def nthOpt_eq)

lemma wr_eq:
  "0 \<le> yy \<Longrightarrow> yy < int (length b) \<Longrightarrow> 0 \<le> xx \<Longrightarrow> xx < int (length (b ! nat yy))
     \<Longrightarrow> wr b yy xx v = b[nat yy := (b ! nat yy)[nat xx := v]]"
  by (simp add: wr_def nthOpt_eq replaceAt_eq jsSet_eq)

subsection \<open>One row of the position text\<close>

lemma fenRowLoop_encTail:
  assumes "length fs = length ps" and "\<forall>i<length fs. rd b r (fs ! i) = ps ! i"
  shows "(case fenRowLoop fs b r row run of
            (row', run') \<Rightarrow> if run' \<noteq> 0 then row' @ showDec run' else row')
         = row @ encTail ps run"
  using assms
proof (induction fs arbitrary: ps row run)
  case Nil
  then show ?case by simp
next
  case (Cons f fs)
  then obtain p ps' where ps: "ps = p # ps'" by (cases ps) auto
  with Cons.prems have len: "length fs = length ps'"
    and hd: "rd b r f = p" and tl: "\<forall>i<length fs. rd b r (fs ! i) = ps' ! i"
    by (auto simp: nth_Cons split: nat.splits)
  show ?case
  proof (cases p)
    case None
    with Cons.IH [OF len tl, of row "run + 1"] hd ps show ?thesis by simp
  next
    case (Some c)
    with Cons.IH [OF len tl, of "(if run \<noteq> 0 then row @ showDec run else row) @ [c]" 0] hd ps
    show ?thesis by simp
  qed
qed

lemma upto_0_7: "[0..7] = [0, 1, 2, 3, 4, 5, 6, 7 :: int]"
  by (simp add: upto.simps)

lemma fenRow_encTail:
  assumes "0 \<le> r" "r < int (length b)" "length (b ! nat r) = 8"
  shows "fenRow b r = encTail (b ! nat r) 0"
proof -
  have "\<forall>i<length [0..7]. rd b r ([0..7] ! i) = (b ! nat r) ! i"
  proof (intro allI impI)
    fix i assume "i < length [0..7]"
    then have i: "i < 8" by (simp add: upto_0_7)
    have "[0..7] = map int [0..<8]" by code_simp
    with i have "[0..7] ! i = int i" by simp
    with assms i show "rd b r ([0..7] ! i) = (b ! nat r) ! i" by (simp add: rd_eq)
  qed
  moreover have "length [0..7] = length (b ! nat r)" using assms by (simp add: upto_0_7)
  ultimately show ?thesis
    using fenRowLoop_encTail [of "[0..7]" "b ! nat r" b r "[]" 0]
    by (simp add: fenRow_def)
qed

lemma decRow_showDec:
  "0 < run \<Longrightarrow> run < 10 \<Longrightarrow> decRow (showDec run @ cs) f row = decRow cs (f + run) row"
  by (simp add: showDec_small)

lemma isPieceChar_not_digit: "isPieceChar c \<Longrightarrow> \<not> isDigit c"
  by (auto simp: isPieceChar_def isDigit_def)

lemma decRow_encTail:
  assumes "0 \<le> run" and "run + int (length ps) \<le> 8" and "list_all validSquare ps"
  shows "decRow (encTail ps run) (int (length pre)) (pre @ replicate (nat run + length ps) None)
         = pre @ replicate (nat run) None @ ps"
  using assms
proof (induction ps arbitrary: run pre)
  case Nil
  then show ?case
    using decRow_showDec [of run "[]" "int (length pre)"] by (cases "run = 0") auto
next
  case (Cons p ps)
  show ?case
  proof (cases p)
    case None
    from Cons.prems have "0 \<le> run + 1" "run + 1 + int (length ps) \<le> 8" "list_all validSquare ps"
      by auto
    from Cons.IH [OF this, of pre] Cons.prems(1) None show ?thesis
      by (simp add: nat_add_distrib replicate_append_same)
  next
    case (Some c)
    let ?row = "pre @ replicate (nat run + length (p # ps)) None"
    let ?pre' = "pre @ replicate (nat run) None @ [Some c]"
    from Cons.prems Some have nd: "\<not> isDigit c"
      by (auto simp: validSquare_def dest: isPieceChar_not_digit)
    have upd: "jsSet ?row (int (length pre) + run) (Some c) = ?pre' @ replicate (length ps) None"
    proof -
      have row: "?row = (pre @ replicate (nat run) None) @ None # replicate (length ps) None"
        by (simp add: replicate_add replicate_app_Cons_same)
      have "jsSet ?row (int (length pre) + run) (Some c) = ?row[length pre + nat run := Some c]"
        using Cons.prems(1) by (subst jsSet_eq) (auto simp: nat_add_distrib)
      also have "\<dots> = ?pre' @ replicate (length ps) None"
        unfolding row
        using list_update_length [of "pre @ replicate (nat run) None" None
            "replicate (length ps) None" "Some c"] by simp
      finally show ?thesis .
    qed
    have len': "int (length pre) + run + 1 = int (length ?pre')" using Cons.prems(1) by simp
    from Cons.prems have ih: "decRow (encTail ps 0) (int (length ?pre'))
        (?pre' @ replicate (nat 0 + length ps) None) = ?pre' @ replicate (nat 0) None @ ps"
      by (intro Cons.IH) auto
    have step: "decRow (c # encTail ps 0) (int (length pre) + run) ?row
        = pre @ replicate (nat run) None @ Some c # ps"
    proof -
      have "decRow (c # encTail ps 0) (int (length pre) + run) ?row
          = decRow (encTail ps 0) (int (length ?pre')) (?pre' @ replicate (length ps) None)"
        using nd upd by (simp only: decRow.simps len' if_False)
      with ih show ?thesis by simp
    qed
    show ?thesis
    proof (cases "run = 0")
      case True
      with step Some show ?thesis by simp
    next
      case False
      with Cons.prems have "0 < run" "run < 10" by auto
      from decRow_showDec [OF this] step Some False show ?thesis by simp
    qed
  qed
qed

lemma decRow_fenRow:
  assumes "validRow row"
  shows "decRow (encTail row 0) 0 (replicate 8 None) = row"
  using decRow_encTail [of 0 row "[]"] assms by (simp add: validRow_def)

lemma encTail_chars:
  assumes "list_all validSquare ps" and "0 \<le> run"
  shows "\<forall>c\<in>set (encTail ps run). isDigit c \<or> isPieceChar c"
  using assms
proof (induction ps run rule: encTail.induct)
  case (1 run)
  then show ?case using showDec_digits [of run] by (auto simp: list_all_iff)
next
  case (2 ps run)
  then show ?case by simp
next
  case (3 c ps run)
  then show ?case using showDec_digits [of run] by (auto simp: list_all_iff validSquare_def)
qed

subsection \<open>The board field\<close>

lemma wr_row:
  "0 \<le> yy \<Longrightarrow> yy < int (length b) \<Longrightarrow> wr b yy xx v = b[nat yy := jsSet (b ! nat yy) xx v]"
  by (simp add: wr_def nthOpt_eq replaceAt_eq)

lemma placeRow_decRow:
  assumes "0 \<le> 7 - r" and "7 - r < int (length b)"
  shows "placeRow cs r f b = b[nat (7 - r) := decRow cs f (b ! nat (7 - r))]"
  using assms
proof (induction cs arbitrary: f b)
  case Nil
  then show ?case by simp
next
  case (Cons ch cs)
  show ?case
  proof (cases "isDigit ch")
    case True
    with Cons show ?thesis by simp
  next
    case False
    let ?b' = "wr b (7 - r) f (Some ch)"
    from Cons.prems have b': "?b' = b[nat (7 - r) := jsSet (b ! nat (7 - r)) f (Some ch)]"
      by (simp add: wr_row)
    from Cons.prems have "placeRow cs r (f + 1) ?b'
        = ?b'[nat (7 - r) := decRow cs (f + 1) (?b' ! nat (7 - r))]"
      by (intro Cons.IH) simp_all
    with False b' Cons.prems show ?thesis by simp
  qed
qed

lemma replicate_8: "replicate 8 x = [x, x, x, x, x, x, x, x]"
  by (simp add: numeral_eq_Suc)

lemma rev_upto_0_7: "rev [0..7] = [7, 6, 5, 4, 3, 2, 1, 0 :: int]"
  by (simp add: upto_0_7)

lemma parseRanks_board:
  assumes "length b = 8" and "list_all validRow b"
  shows "parseRanks [0..7] (map (fenRow b) (rev [0..7])) (replicate 8 (replicate 8 None)) = Inr b"
proof -
  from assms(1) obtain r0 r1 r2 r3 r4 r5 r6 r7 where b: "b = [r0, r1, r2, r3, r4, r5, r6, r7]"
    by (auto simp: numeral_eq_Suc length_Suc_conv)
  from assms(2) b have v: "validRow r0" "validRow r1" "validRow r2" "validRow r3"
    "validRow r4" "validRow r5" "validRow r6" "validRow r7" by simp_all
  then have l: "length r0 = 8" "length r1 = 8" "length r2 = 8" "length r3 = 8"
    "length r4 = 8" "length r5 = 8" "length r6 = 8" "length r7 = 8"
    by (simp_all add: validRow_def)
  have f: "fenRow b 0 = encTail r0 0" "fenRow b 1 = encTail r1 0" "fenRow b 2 = encTail r2 0"
    "fenRow b 3 = encTail r3 0" "fenRow b 4 = encTail r4 0" "fenRow b 5 = encTail r5 0"
    "fenRow b 6 = encTail r6 0" "fenRow b 7 = encTail r7 0"
    using l by (simp_all add: fenRow_encTail b)
  note d = decRow_fenRow [OF v(1)] decRow_fenRow [OF v(2)] decRow_fenRow [OF v(3)]
    decRow_fenRow [OF v(4)] decRow_fenRow [OF v(5)] decRow_fenRow [OF v(6)]
    decRow_fenRow [OF v(7)] decRow_fenRow [OF v(8)]
  show ?thesis
    unfolding rev_upto_0_7 upto_0_7
    by (simp add: f [unfolded b] placeRow_decRow d replicate_8 [of "replicate 8 None"] b)
qed

subsection \<open>The six fields\<close>

lemma isPieceChar_not_sep: "isPieceChar c \<Longrightarrow> c \<noteq> CHR '' '' \<and> c \<noteq> CHR ''/''"
  by (auto simp: isPieceChar_def)

lemma fenRow_chars:
  assumes "length b = 8" and "list_all validRow b" and "r \<in> set [0..7]"
  shows "CHR '' '' \<notin> set (fenRow b r) \<and> CHR ''/'' \<notin> set (fenRow b r)"
proof -
  from assms(3) have r: "0 \<le> r" "r < 8" by auto
  with assms(1) have "nat r < length b" by simp
  with assms(2) have v: "validRow (b ! nat r)" by (simp add: list_all_length)
  with r assms(1) have "fenRow b r = encTail (b ! nat r) 0"
    by (simp add: fenRow_encTail validRow_def)
  moreover from v have "\<forall>c\<in>set (encTail (b ! nat r) 0). isDigit c \<or> isPieceChar c"
    by (intro encTail_chars) (simp_all add: validRow_def)
  ultimately show ?thesis
    by (auto dest: isDigit_not_space isDigit_not_slash isPieceChar_not_sep)
qed

lemma placement_split:
  assumes "length b = 8" and "list_all validRow b"
  shows "splitOn CHR ''/'' (joinWith CHR ''/'' (map (fenRow b) (rev [0..7])))
           = map (fenRow b) (rev [0..7])"
    and "CHR '' '' \<notin> set (joinWith CHR ''/'' (map (fenRow b) (rev [0..7])))"
proof -
  have ne: "map (fenRow b) (rev [0..7]) \<noteq> []" by (simp add: upto_0_7)
  have "\<forall>x\<in>set (map (fenRow b) (rev [0..7])). CHR ''/'' \<notin> set x"
    using fenRow_chars [OF assms] by auto
  with ne show "splitOn CHR ''/'' (joinWith CHR ''/'' (map (fenRow b) (rev [0..7])))
           = map (fenRow b) (rev [0..7])"
    by (rule splitOn_join)
  have "\<forall>x\<in>set (map (fenRow b) (rev [0..7])). CHR '' '' \<notin> set x"
    using fenRow_chars [OF assms] by auto
  with set_joinWith [of "CHR ''/''" "map (fenRow b) (rev [0..7])"]
  show "CHR '' '' \<notin> set (joinWith CHR ''/'' (map (fenRow b) (rev [0..7])))"
    by auto
qed

lemma six_fields:
  assumes "CHR '' '' \<notin> set p" "CHR '' '' \<notin> set a" "CHR '' '' \<notin> set c"
    "CHR '' '' \<notin> set e" "CHR '' '' \<notin> set h" "CHR '' '' \<notin> set f"
  shows "splitOn CHR '' '' (p @ '' '' @ a @ '' '' @ c @ '' '' @ e @ '' '' @ h @ '' '' @ f)
         = [p, a, c, e, h, f]"
  using assms by (simp add: splitOn_append splitOn_no_sep)

lemma castling_field:
  assumes "list_all (\<lambda>ch. ch \<in> set ''KQkq'') c"
  shows "CHR '' '' \<notin> set (orDash (Some c))"
    and "orDash (Some c) = ''-'' \<Longrightarrow> c = []"
    and "orDash (Some c) \<noteq> ''-'' \<Longrightarrow> orDash (Some c) = c"
  using assms by (auto simp: orDash_def list_all_iff split: if_splits)

lemma wellFormed_roundtrip:
  assumes "wellFormed s"
  shows "parseFen (toFen s) = Inr s"
proof -
  from assms have len: "length (board s) = 8" and rows: "list_all validRow (board s)"
    by (simp_all add: wellFormed_def)
  from assms obtain a where a: "activeColor s = Some a" "CHR '' '' \<notin> set a"
    by (auto simp: wellFormed_def)
  from assms obtain c where c: "castling s = Some c" "list_all (\<lambda>ch. ch \<in> set ''KQkq'') c"
    by (auto simp: wellFormed_def split: option.splits)
  from assms obtain e where e: "enPassant s = Some e" "e \<noteq> []" "CHR '' '' \<notin> set e"
    by (auto simp: wellFormed_def split: option.splits)
  from assms obtain h where h: "halfmove s = Num h" "0 \<le> h"
    by (auto simp: wellFormed_def split: jsnum.splits)
  from assms obtain f where f: "fullmove s = Num f" "0 \<le> f"
    by (auto simp: wellFormed_def split: jsnum.splits)
  let ?p = "joinWith CHR ''/'' (map (fenRow (board s)) (rev [0..7]))"
  let ?c = "orDash (Some c)"
  have oe: "orDash (Some e) = e" using e(2) by (simp add: orDash_def)
  have printed: "toFen s = ?p @ '' '' @ a @ '' '' @ ?c @ '' '' @ e @ '' ''
      @ showNum (Num h) @ '' '' @ showNum (Num f)"
    by (simp only: toFen_def a c e h f oe showStr_def option.case)
  have fields: "splitOn CHR '' '' (toFen s) = [?p, a, ?c, e, showNum (Num h), showNum (Num f)]"
    unfolding printed
    by (rule six_fields [OF placement_split(2) [OF len rows] a(2) castling_field(1) [OF c(2)]
          e(3) showNum_no_space [OF h(2)] showNum_no_space [OF f(2)]])
  have board: "parseRanks [0..7] (splitOn CHR ''/'' ?p) (replicate 8 (replicate 8 None))
      = Inr (board s)"
    by (simp only: placement_split(1) [OF len rows] parseRanks_board [OF len rows])
  have cast: "(if Some ?c = Some ''-'' then Some [] else Some ?c) = Some c"
    using castling_field(2,3) [OF c(2)] by auto
  have n: "nthOpt [?p, a, ?c, e, showNum (Num h), showNum (Num f)] 0 = Some ?p"
    "nthOpt [?p, a, ?c, e, showNum (Num h), showNum (Num f)] 1 = Some a"
    "nthOpt [?p, a, ?c, e, showNum (Num h), showNum (Num f)] 2 = Some ?c"
    "nthOpt [?p, a, ?c, e, showNum (Num h), showNum (Num f)] 3 = Some e"
    "nthOpt [?p, a, ?c, e, showNum (Num h), showNum (Num f)] 4 = Some (showNum (Num h))"
    "nthOpt [?p, a, ?c, e, showNum (Num h), showNum (Num f)] 5 = Some (showNum (Num f))"
    by simp_all
  have "parseFen (toFen s)
      = Inr \<lparr> board = board s, activeColor = Some a, castling = Some c,
              enPassant = Some e, halfmove = Num h, fullmove = Num f \<rparr>"
    unfolding parseFen_def fields Let_def
    by (simp only: n board andThen_simps cast jsNumber_showNum [OF h(2)]
          jsNumber_showNum [OF f(2)] option.case)
  also have "\<dots> = Inr s"
    by (simp add: a(1) [symmetric] c(1) [symmetric] e(1) [symmetric] h(1) [symmetric] f(1) [symmetric])
  finally show ?thesis .
qed

subsection \<open>Legal moves stay on the board\<close>

lemma allSquares_onBoard: "q \<in> set allSquares \<Longrightarrow> onBoard (fst q) (snd q)"
  by (auto simp: allSquares_def onBoard_def)

lemma addMove_to:
  "m \<in> set (addMove b color frm toX toY cap pd ep)
     \<Longrightarrow> onBoard (fst (mto m)) (snd (mto m)) \<and> mpromotion m = None"
  by (auto simp: addMove_def Let_def split: if_splits)

lemma pawnMoves_mem:
  "m \<in> set (pawnMoves s frm color tc)
     \<Longrightarrow> \<exists>x y cap pd ep. m \<in> set (addMove (board s) color frm x y cap pd ep)"
  by (auto simp: pawnMoves_def Let_def split: prod.splits if_splits) blast+

lemma kingMoves_to:
  assumes "kingMoves s frm color tc = Inr ms" and "m \<in> set ms"
  shows "onBoard (fst (mto m)) (snd (mto m)) \<and> mpromotion m = None"
  using assms
  by (auto simp: kingMoves_def Let_def onBoard_def split: if_splits option.splits
      dest!: addMove_to)

lemma generatePieceMoves_to:
  assumes "generatePieceMoves s q = Inr ms" and "m \<in> set ms"
  shows "onBoard (fst (mto m)) (snd (mto m)) \<and> mpromotion m = None"
proof -
  have add: "onBoard (fst (mto m)) (snd (mto m)) \<and> mpromotion m = None"
    if "\<exists>x y cap pd ep. m \<in> set (addMove b color frm x y cap pd ep)" for b color frm
    using that addMove_to by blast
  from assms show ?thesis
    by (auto simp: generatePieceMoves_def Let_def split: option.splits if_splits
        dest!: slide_mem pawnMoves_mem kingMoves_to addMove_to)
qed

lemma legal_move_squares:
  assumes "allLegalMoves s = Inr ms" and "m \<in> set ms"
  shows "onBoard (fst (mfrom m)) (snd (mfrom m)) \<and> onBoard (fst (mto m)) (snd (mto m))
         \<and> mpromotion m = None"
proof -
  from legalLoop_sound [of s allSquares ms m] assms obtain q gs where
    q: "q \<in> set allSquares" and g: "generatePieceMoves s q = Inr gs" and m: "m \<in> set gs"
    by (auto simp: allLegalMoves_def)
  from generatePieceMoves_from [OF g m] allSquares_onBoard [OF q]
    generatePieceMoves_to [OF g m]
  show ?thesis by simp
qed

subsection \<open>Applying a move keeps a position well formed\<close>

lemma validSquare_rd: "list_all validRow b \<Longrightarrow> validSquare (rd b yy xx)"
proof (cases "0 \<le> yy \<and> yy < int (length b) \<and> 0 \<le> xx \<and> xx < int (length (b ! nat yy))")
  case False
  then show ?thesis by (auto simp: rd_def nthOpt_eq validSquare_def)
next
  case True
  assume rows: "list_all validRow b"
  from True have y: "nat yy < length b" and x: "nat xx < length (b ! nat yy)" by auto
  from rows y have "list_all validSquare (b ! nat yy)" by (simp add: list_all_length validRow_def)
  with x have "validSquare (b ! nat yy ! nat xx)" by (simp add: list_all_length)
  with True show ?thesis by (simp add: rd_eq)
qed

lemma validRow_wr:
  assumes "list_all validRow b" and "0 \<le> xx" and "xx < 8" and "validSquare v"
  shows "list_all validRow (wr b yy xx v)"
proof (cases "0 \<le> yy \<and> yy < int (length b)")
  case False
  then have "nthOpt b yy = None" by (auto simp: nthOpt_eq)
  with assms(1) show ?thesis by (simp add: wr_def)
next
  case True
  let ?row = "b ! nat yy"
  from True have "nat yy < length b" by auto
  with assms(1) have row: "validRow ?row" by (simp add: list_all_length)
  with assms(2,3) have eq: "wr b yy xx v = b[nat yy := ?row[nat xx := v]]"
    using True by (simp add: wr_eq validRow_def)
  from row assms(4) have "validRow (?row[nat xx := v])"
    by (auto simp: validRow_def list_all_iff dest!: set_update_subset_insert [THEN subsetD])
  with assms(1) show ?thesis
    unfolding eq by (auto simp: list_all_iff dest!: set_update_subset_insert [THEN subsetD])
qed

lemma lower_Q: "toLowerCase CHR ''Q'' = CHR ''q''" by code_simp
lemma lower_R: "toLowerCase CHR ''R'' = CHR ''r''" by code_simp
lemma lower_B: "toLowerCase CHR ''B'' = CHR ''b''" by code_simp
lemma lower_N: "toLowerCase CHR ''N'' = CHR ''n''" by code_simp

lemma promoted_valid:
  "isPromoLetter c \<Longrightarrow> isPieceChar c \<and> isPieceChar (toLowerCase c)"
  by (auto simp: isPromoLetter_def isPieceChar_def lower_Q lower_R lower_B lower_N)

lemma boardAfter_valid:
  assumes "list_all validRow (board s)"
    and "onBoard (fst (mfrom m)) (snd (mfrom m))" and "onBoard (fst (mto m)) (snd (mto m))"
    and "case mpromotion m of None \<Rightarrow> True | Some c \<Rightarrow> isPromoLetter c"
  shows "list_all validRow (boardAfter s m)"
proof -
  have none: "validSquare None" by (simp add: validSquare_def)
  define w where "w = (activeColor s = Some ''w'')"
  define rank :: int where "rank = (if w then 0 else 7)"
  define b1 where "b1 = wr (board s) (snd (mfrom m)) (fst (mfrom m)) None"
  define b2 where "b2 = (if menPassant m
      then wr b1 (snd (mto m) + (if w then -1 else 1)) (fst (mto m)) None else b1)"
  define b3 where "b3 = (if mcastle m \<noteq> None then
                  (if fst (mto m) = 6 then wr (wr b2 rank 7 None) rank 5 (rd b2 rank 7)
                   else if fst (mto m) = 2 then wr (wr b2 rank 0 None) rank 3 (rd b2 rank 0)
                   else b2)
                else b2)"
  define v where "v = (case mpromotion m of
              Some pr \<Rightarrow> Some (if w then pr else toLowerCase pr)
            | None \<Rightarrow> rd (board s) (snd (mfrom m)) (fst (mfrom m)))"
  from assms(2,3) have fx: "0 \<le> fst (mfrom m)" "fst (mfrom m) < 8"
    and tx: "0 \<le> fst (mto m)" "fst (mto m) < 8" by (auto simp: onBoard_def)
  have 1: "list_all validRow b1"
    unfolding b1_def using assms(1) fx none by (rule validRow_wr)
  have 2: "list_all validRow b2"
    unfolding b2_def using validRow_wr [OF 1 tx none] 1 by simp
  have rook: "list_all validRow (wr (wr b2 rank a None) rank c (rd b2 rank a))"
    if "0 \<le> a" "a < 8" "0 \<le> c" "c < 8" for a c
  proof -
    have a: "list_all validRow (wr b2 rank a None)" using 2 that(1,2) none by (rule validRow_wr)
    have r: "validSquare (rd b2 rank a)" using 2 by (rule validSquare_rd)
    from a that(3,4) r show ?thesis by (rule validRow_wr)
  qed
  have 3: "list_all validRow b3"
    unfolding b3_def using 2 rook [of 7 5] rook [of 0 3] by simp
  have "validSquare (rd (board s) (snd (mfrom m)) (fst (mfrom m)))"
    using assms(1) by (rule validSquare_rd)
  with assms(4) have val: "validSquare v"
    unfolding v_def by (auto simp: validSquare_def dest: promoted_valid split: option.splits)
  have "boardAfter s m = wr b3 (snd (mto m)) (fst (mto m)) v"
    unfolding boardAfter_def Let_def b3_def b2_def b1_def v_def rank_def w_def by (rule refl)
  with validRow_wr [OF 3 tx val] show ?thesis by simp
qed

lemma boardAfter_length [simp]: "length (boardAfter s m) = length (board s)"
  by (simp add: boardAfter_def Let_def)

lemma showChar_ok:
  assumes "CHR '' '' \<notin> set cs"
  shows "showChar (nthOpt cs i) \<noteq> [] \<and> CHR '' '' \<notin> set (showChar (nthOpt cs i))"
proof (cases "0 \<le> i \<and> i < int (length cs)")
  case False
  then show ?thesis by (auto simp: showChar_def nthOpt_eq)
next
  case True
  then have "nat i < length cs" by auto
  then have "cs ! nat i \<in> set cs" by (rule nth_mem)
  with assms True show ?thesis by (auto simp: showChar_def nthOpt_eq)
qed

lemma idxToSq_ok: "idxToSq xx yy \<noteq> [] \<and> CHR '' '' \<notin> set (idxToSq xx yy)"
  using showChar_ok [of FILES xx] showChar_ok [of RANKS yy]
  by (simp add: idxToSq_def FILES_def RANKS_def)

lemma jsInc_nonneg: "0 \<le> h \<Longrightarrow> \<exists>h'. jsInc (Num h) = Num h' \<and> 0 \<le> h'"
  by (simp add: jsInc_def)

lemma applyMove_wellFormed:
  assumes "wellFormed s" and "applyMove s m = Inr n"
    and "onBoard (fst (mfrom m)) (snd (mfrom m))" and "onBoard (fst (mto m)) (snd (mto m))"
    and "case mpromotion m of None \<Rightarrow> True | Some c \<Rightarrow> isPromoLetter c"
  shows "wellFormed n"
proof -
  from assms(1) have len: "length (board s) = 8" and rows: "list_all validRow (board s)"
    by (simp_all add: wellFormed_def)
  from assms(1) obtain c where c: "castling s = Some c" "list_all (\<lambda>ch. ch \<in> set ''KQkq'') c"
    by (auto simp: wellFormed_def split: option.splits)
  from assms(1) obtain h where h: "halfmove s = Num h" "0 \<le> h"
    by (auto simp: wellFormed_def split: jsnum.splits)
  from assms(1) obtain f where f: "fullmove s = Num f" "0 \<le> f"
    by (auto simp: wellFormed_def split: jsnum.splits)
  from applyMove_Inr_eq [OF assms(2)] obtain pc c7 where
    c7: "castlingAfter s m (toUpperCase pc) = Inr c7" and
    n: "board n = boardAfter s m"
       "activeColor n = Some (if activeColor s = Some ''w'' then ''b'' else ''w'')"
       "castling n = c7"
       "enPassant n = (if mpawnDouble m
                          then Some (idxToSq (fst (mfrom m))
                                 (snd (mfrom m) + (if activeColor s = Some ''w'' then 1 else -1)))
                          else Some ''-'')"
       "halfmove n = (if toUpperCase pc = CHR ''P'' \<or> mcapture m then Num 0
                         else jsInc (halfmove s))"
       "fullmove n = (if activeColor s = Some ''w'' then fullmove s else jsInc (fullmove s))"
    by auto
  from castlingAfter_Some [OF c(1), of m "toUpperCase pc"] c7 obtain c' where
    c': "c7 = Some c'" "set c' \<subseteq> set c" by auto
  have b: "length (board n) = 8 \<and> list_all validRow (board n)"
    using boardAfter_valid [OF rows assms(3,4,5)] len n(1) by simp
  have a: "activeColor n = Some ''w'' \<or> activeColor n = Some ''b''" using n(2) by simp
  have cc: "case castling n of None \<Rightarrow> False | Some c \<Rightarrow> list_all (\<lambda>ch. ch \<in> set ''KQkq'') c"
    using c' c(2) n(3) by (auto simp: list_all_iff)
  have e: "case enPassant n of None \<Rightarrow> False | Some e \<Rightarrow> e \<noteq> [] \<and> CHR '' '' \<notin> set e"
    using n(4) idxToSq_ok by simp
  have hh: "case halfmove n of NaN \<Rightarrow> False | Num h \<Rightarrow> 0 \<le> h"
    using n(5) h jsInc_nonneg [OF h(2)] by auto
  have ff: "case fullmove n of NaN \<Rightarrow> False | Num f \<Rightarrow> 0 \<le> f"
    using n(6) f jsInc_nonneg [OF f(2)] by auto
  from b a cc e hh ff show ?thesis by (simp add: wellFormed_def)
qed

subsection \<open>Reachable positions are well formed\<close>

lemma start_parse: "parseFen START_FEN = Inr startPosition"
  by code_simp

lemma start_wellFormed: "wellFormed startPosition"
  by code_simp

lemma reachable_wellFormed: "reachable s \<Longrightarrow> wellFormed s"
proof (induction rule: reachable.induct)
  case (start s)
  with start_parse start_wellFormed show ?case by simp
next
  case (step s ms m n)
  from legal_move_squares [OF step.hyps(2,3)] step.IH step.hyps(4) show ?case
    by (auto intro: applyMove_wellFormed)
next
  case (promote s ms m c n)
  from legal_move_squares [OF promote.hyps(2,3)] promote.IH promote.hyps(4,5) show ?case
    by (auto intro!: applyMove_wellFormed [of s "m\<lparr>mpromotion := Some c\<rparr>" n])
qed

lemma start_has_e4:
  "(case allLegalMoves startPosition of Inl e \<Rightarrow> False | Inr ms \<Rightarrow> pawnE4 \<in> set ms)"
  by code_simp

lemma start_e4: "applyMove startPosition pawnE4 = Inr afterE4"
  by code_simp

text \<open>
  C2 (round trip). For the starting position and every position reached from it by
  legal moves, writing the position with \<open>toFen\<close> and reading the text with \<open>parseFen\<close>
  gives the position back, equal in all six fields.
\<close>

theorem toFen_parseFen_roundtrip:
  assumes "reachable p"
  shows "parseFen (toFen p) = Inr p"
  using assms by (intro wellFormed_roundtrip reachable_wellFormed)

theorem toFen_parseFen_roundtrip_witness:
  "reachable startPosition \<and> parseFen (toFen startPosition) = Inr startPosition
   \<and> reachable afterE4 \<and> parseFen (toFen afterE4) = Inr afterE4"
proof -
  have r0: "reachable startPosition" using start_parse by (rule reachable.start)
  from start_has_e4 obtain ms where ms: "allLegalMoves startPosition = Inr ms"
    and m: "pawnE4 \<in> set ms"
    by (cases "allLegalMoves startPosition") auto
  from r0 ms m start_e4 have r1: "reachable afterE4" by (rule reachable.step)
  from r0 r1 toFen_parseFen_roundtrip [OF r0] toFen_parseFen_roundtrip [OF r1]
  show ?thesis by simp
qed

end
